theory Spec2Isabelle
  imports Main
begin

section \<open>Python values, errors and the random source\<close>

text \<open>
  The module \<open>handy.py\<close> builds passwords from a template. Its functions raise Python
  exceptions, read dictionaries, index strings with possibly negative integers and draw
  from the global random generator. Each of these is explicit in the model:
  \<^item> an exception is the \<open>Inl\<close> branch of a result \<open>error + 'a\<close>;
  \<^item> a dictionary is a map; a missing key is \<open>KeyError\<close>;
  \<^item> a string is a list of characters, and the characters are those of ASCII: the
    tables of the module and the words of an English word list are ASCII text, and
    \<open>str.upper\<close> and \<open>str.title\<close> are modelled on it (on other text they can even
    change the length of a string, \<open>str.title\<close> turns the German sharp s into \<open>Ss\<close>);
  \<^item> the random generator is a stream of natural numbers \<open>rng\<close>, threaded through every
    function that draws: \<open>random.choice\<close> reads the next number modulo the length of the
    sequence, \<open>random.randrange\<close> modulo its bound, and \<open>random.random() < 0.5\<close> asks
    whether it is even. A property proved for every stream holds for every run.
  \<^item> what \<open>force_char\<close> prints is the first component of its result, a list of lines;
    \<open>get_pass\<close> is modelled by the value it returns, and what it prints is what its two
    calls of \<open>force_char\<close> print.
\<close>

text \<open>
  The exceptions of the code: \<open>IndexError\<close> (an index out of range, a random choice
  from an empty sequence), \<open>KeyError\<close>, \<open>TypeError\<close> and \<open>ValueError\<close>. The last
  constructor is the error that the specification names for a word that cannot be chosen,
  with the category and the two length bounds; no statement of \<open>handy.py\<close> raises it,
  and none of the functions below returns it.
\<close>

datatype error = IndexError | KeyError | TypeError | ValueError
  | NoEligibleWord string nat nat

type_synonym rng = "nat \<Rightarrow> nat"

definition rest :: "rng \<Rightarrow> rng" where
  "rest r = (\<lambda>n. r (Suc n))"

definition py_choice :: "rng \<Rightarrow> 'a list \<Rightarrow> error + ('a \<times> rng)" where
  "py_choice r xs =
     (if xs = [] then Inl IndexError else Inr (xs ! (r 0 mod length xs), rest r))"

definition py_coin :: "rng \<Rightarrow> bool \<times> rng" where
  "py_coin r = (r 0 mod 2 = 0, rest r)"

definition py_randrange :: "rng \<Rightarrow> int \<Rightarrow> error + (int \<times> rng)" where
  "py_randrange r n =
     (if n \<le> 0 then Inl ValueError else Inr (int (r 0 mod nat n), rest r))"

definition py_index :: "'a list \<Rightarrow> int \<Rightarrow> error + 'a" where
  "py_index xs i =
     (if 0 \<le> i \<and> i < int (length xs) then Inr (xs ! nat i)
      else if i < 0 \<and> - int (length xs) \<le> i then Inr (xs ! nat (int (length xs) + i))
      else Inl IndexError)"

definition py_slice_to :: "'a list \<Rightarrow> int \<Rightarrow> 'a list" where
  "py_slice_to xs i =
     (if i < 0 then take (nat (int (length xs) + i)) xs else take (nat i) xs)"

definition py_slice_from :: "'a list \<Rightarrow> int \<Rightarrow> 'a list" where
  "py_slice_from xs i =
     (if i < 0 then drop (nat (int (length xs) + i)) xs else drop (nat i) xs)"

definition py_sum :: "bool list \<Rightarrow> nat" where
  "py_sum bs = length (filter (\<lambda>b. b) bs)"

definition lower_letters :: string where
  "lower_letters = ''abcdefghijklmnopqrstuvwxyz''"

definition upper_letters :: string where
  "upper_letters = ''ABCDEFGHIJKLMNOPQRSTUVWXYZ''"

definition upper_char :: "char \<Rightarrow> char" where
  "upper_char c =
     (case map_of (zip lower_letters upper_letters) c of Some u \<Rightarrow> u | None \<Rightarrow> c)"

definition lower_char :: "char \<Rightarrow> char" where
  "lower_char c =
     (case map_of (zip upper_letters lower_letters) c of Some l \<Rightarrow> l | None \<Rightarrow> c)"

definition upper :: "string \<Rightarrow> string" where
  "upper s = map upper_char s"

text \<open>
  \<open>str.title\<close> on ASCII text: a letter that follows a character that is no letter (or
  starts the string) is put in upper case, a letter that follows a letter in lower case,
  and every other character is kept. A character beyond ASCII is kept as it is here,
  where Python may change its case; no statement below is about such text.
\<close>

fun title_from :: "bool \<Rightarrow> string \<Rightarrow> string" where
  "title_from prev [] = []"
| "title_from prev (c # cs) =
     (if c \<in> set lower_letters then (if prev then c else upper_char c) # title_from True cs
      else if c \<in> set upper_letters then (if prev then lower_char c else c) # title_from True cs
      else c # title_from False cs)"

definition title :: "string \<Rightarrow> string" where
  "title s = title_from False s"

section \<open>The character table and the letter mappings\<close>

text \<open>
  \<open>CHARS\<close> is filled key by key, a later entry from the entries written before it
  (\<open>CHARS['left-upper'] = CHARS['left-lower'].upper()\<close>); each entry of the two hands
  is named here by its key. The \<open>any-\<close> keys are added by the loop over the six kinds;
  the subscripts of that loop read keys that were written before, so they cannot fail and
  are written with \<open>the\<close>.
\<close>

definition left_lower :: string where
  "left_lower = ''qwertasdfgzxcvb''"

definition left_upper :: string where
  "left_upper = upper left_lower"

definition left_letter :: string where
  "left_letter = left_lower @ left_upper"

definition left_number :: string where
  "left_number = ''12345''"

definition left_symbol :: string where
  "left_symbol = ''!@#$%''"

definition left_all :: string where
  "left_all = left_letter @ left_number @ left_symbol"

definition right_lower :: string where
  "right_lower = ''yuiophjklnm''"

definition right_upper :: string where
  "right_upper = upper right_lower"

definition right_letter :: string where
  "right_letter = right_lower @ right_upper"

definition right_number :: string where
  "right_number = ''67890''"

definition right_symbol :: string where
  "right_symbol = ''^&*()''"

definition right_all :: string where
  "right_all = right_letter @ right_number @ right_symbol"

definition CHARS_hands :: "string \<rightharpoonup> string" where
  "CHARS_hands =
     [''left-lower'' \<mapsto> left_lower, ''left-upper'' \<mapsto> left_upper,
      ''left-letter'' \<mapsto> left_letter, ''left-number'' \<mapsto> left_number,
      ''left-symbol'' \<mapsto> left_symbol, ''left-all'' \<mapsto> left_all,
      ''right-lower'' \<mapsto> right_lower, ''right-upper'' \<mapsto> right_upper,
      ''right-letter'' \<mapsto> right_letter, ''right-number'' \<mapsto> right_number,
      ''right-symbol'' \<mapsto> right_symbol, ''right-all'' \<mapsto> right_all]"

definition CHARS :: "string \<rightharpoonup> string" where
  "CHARS =
     foldl (\<lambda>m partial_key.
              m(''any-'' @ partial_key \<mapsto>
                  the (m (''left-'' @ partial_key)) @ the (m (''right-'' @ partial_key))))
       CHARS_hands [''lower'', ''upper'', ''letter'', ''number'', ''symbol'', ''all'']"

text \<open>
  A letter mapping is a dictionary with the keys \<open>to-number\<close> and \<open>to-symbol\<close>. Its
  values are meant to be dictionaries from letters to characters, but the module also
  stores plain strings there (see \<open>MOD10\<close>), so a value is either of the two. The
  operators \<open>in\<close> and \<open>[]\<close> of \<open>force_char\<close> are applied to such a value with a
  one-character string: on a dictionary they test and read a key, on a string \<open>in\<close> is
  the substring test and a subscript by a string raises \<open>TypeError\<close>.
\<close>

datatype pytable = Dict "string \<rightharpoonup> string" | Str string

fun contains :: "pytable \<Rightarrow> char \<Rightarrow> bool" where
  "contains (Dict m) c = (m [c] \<noteq> None)"
| "contains (Str s) c = (c \<in> set s)"

fun getitem :: "pytable \<Rightarrow> char \<Rightarrow> error + string" where
  "getitem (Dict m) c = (case m [c] of None \<Rightarrow> Inl KeyError | Some v \<Rightarrow> Inr v)"
| "getitem (Str s) c = Inl TypeError"

definition py_zip :: "string \<Rightarrow> string \<Rightarrow> (string \<times> string) list" where
  "py_zip ks vs = zip (map (\<lambda>c. [c]) ks) (map (\<lambda>c. [c]) vs)"

text \<open>\<open>dict(pairs)\<close>: a later pair overwrites an earlier one with the same key.\<close>

definition py_dict :: "(string \<times> string) list \<Rightarrow> (string \<rightharpoonup> string)" where
  "py_dict kvs = map_of (rev kvs)"

definition NUM_SYM :: "string \<rightharpoonup> string" where
  "NUM_SYM = py_dict (py_zip ''1234567890'' ''!@#$%^&*()'')"

fun py_str :: "nat \<Rightarrow> string" where
  "py_str n =
     (if n < 10 then [''0123456789'' ! n]
      else py_str (n div 10) @ [''0123456789'' ! (n mod 10)])"

declare py_str.simps [simp del]

text \<open>
  The loop that fills \<open>MOD10\<close> assigns to \<open>MOD10['to-number']\<close> and
  \<open>MOD10['to-symbol']\<close> themselves, once per letter: each round replaces the value
  stored under the key. \<open>NUM_SYM\<close> has every digit as a key, so its subscript cannot fail.
\<close>

definition MOD10 :: "string \<rightharpoonup> pytable" where
  "MOD10 =
     foldl (\<lambda>m (char_index, c).
              let char_index = char_index + 1;
                  m1 = m(''to-number'' \<mapsto> Str (py_str (char_index mod 10)))
              in m1(''to-symbol'' \<mapsto> Str (the (NUM_SYM (py_str (char_index mod 10))))))
       [''to-number'' \<mapsto> Dict Map.empty, ''to-symbol'' \<mapsto> Dict Map.empty]
       (enumerate 0 lower_letters)"

definition PHONE :: "string \<rightharpoonup> pytable" where
  "PHONE =
     (let p = [''to-number'' \<mapsto>
                 Dict (py_dict (py_zip lower_letters ''22233344455566677778889999''))]
      in p(''to-symbol'' \<mapsto>
             Dict (py_dict (py_zip lower_letters ''@@@###$$$%%%^^^&&&&***((((''))))"

definition VERT_BASE :: "(string \<times> string) list" where
  "VERT_BASE =
     [(''zaq'', ''1''), (''xsw'', ''2''), (''cde'', ''3''), (''vfr'', ''4''), (''bgt'', ''5''),
      (''nhy'', ''6''), (''mju'', ''7''), (''ki'', ''8''), (''lo'', ''9''), (''p'', ''0'')]"

text \<open>
  \<open>VERTICAL\<close> is filled by two nested loops, over the keys of \<open>VERT_BASE\<close> and over the
  characters of each key; the two inner dictionaries are updated in place.
\<close>

definition VERTICAL_tables :: "(string \<rightharpoonup> string) \<times> (string \<rightharpoonup> string)" where
  "VERTICAL_tables =
     foldl (\<lambda>tabs (key, digit).
              foldl (\<lambda>(num, sym) c. (num([c] \<mapsto> digit), sym([c] \<mapsto> the (NUM_SYM digit))))
                tabs key)
       (Map.empty, Map.empty) VERT_BASE"

definition VERTICAL :: "string \<rightharpoonup> pytable" where
  "VERTICAL =
     [''to-number'' \<mapsto> Dict (fst VERTICAL_tables),
      ''to-symbol'' \<mapsto> Dict (snd VERTICAL_tables)]"

section \<open>The functions\<close>

subsection \<open>\<open>check_hand\<close>\<close>

definition check_hand ::
  "rng \<Rightarrow> char \<Rightarrow> bool \<Rightarrow> string \<Rightarrow> string \<Rightarrow> (bool \<times> string \<times> string) \<times> rng" where
  "check_hand r spec ev h nh =
     (let ((ev1, h1, nh1), r1) =
        (if spec = CHR ''='' then
           (let (swap, r') = py_coin r
            in if swap then ((True, ''right'', ''left''), r')
               else ((True, ''left'', ''right''), r'))
         else if spec = CHR ''<'' then ((False, ''left'', nh), r)
         else if spec = CHR ''>'' then ((False, ''right'', nh), r)
         else if spec = CHR ''@'' then ((False, ''any'', nh), r)
         else ((ev, h, nh), r))
      in if ev1 then ((ev1, nh1, h1), r1) else ((ev1, h1, nh1), r1))"

subsection \<open>\<open>force_char\<close>\<close>

text \<open>
  One round of the loop of \<open>force_char\<close> for an index below the length of the password:
  the replacement is the mapping's value when the character is in the mapping, a random
  character of \<open>any_char\<close> otherwise.
\<close>

definition replacement ::
  "rng \<Rightarrow> char \<Rightarrow> pytable \<Rightarrow> string \<Rightarrow> error + (string \<times> rng)" where
  "replacement r c mapping any_char =
     (if contains mapping c then
        (case getitem mapping c of Inl e \<Rightarrow> Inl e | Inr v \<Rightarrow> Inr (v, r))
      else
        (case py_choice r any_char of Inl e \<Rightarrow> Inl e | Inr (x, r') \<Rightarrow> Inr ([x], r')))"

text \<open>The loop of \<open>force_char\<close> over the indexes.\<close>

fun force_loop ::
  "rng \<Rightarrow> string \<Rightarrow> int list \<Rightarrow> pytable \<Rightarrow> string \<Rightarrow> error + (string \<times> rng)" where
  "force_loop r pw [] mapping any_char = Inr (pw, r)"
| "force_loop r pw (index # indexes) mapping any_char =
     (if index \<ge> int (length pw) then force_loop r pw indexes mapping any_char
      else
        (case py_index pw index of
           Inl e \<Rightarrow> Inl e
         | Inr c \<Rightarrow>
             (case replacement r c mapping any_char of
                Inl e \<Rightarrow> Inl e
              | Inr (ch, r') \<Rightarrow>
                  force_loop r' (py_slice_to pw index @ ch @ py_slice_from pw (index + 1))
                    indexes mapping any_char)))"

text \<open>
  \<open>force_char\<close> itself: when the list of indexes is not empty it first prints one line,
  the words of the message and the password as it came in, and then runs the loop. The
  line is printed also when the loop goes on to raise, and when every index is skipped.
\<close>

definition force_char ::
  "rng \<Rightarrow> string \<Rightarrow> int list \<Rightarrow> pytable \<Rightarrow> string
     \<Rightarrow> string list \<times> (error + (string \<times> rng))" where
  "force_char r pw indexes mapping any_char =
     ((if indexes \<noteq> [] then [''Password before forcing characters: '' @ pw] else []),
      force_loop r pw indexes mapping any_char)"

subsection \<open>\<open>next_char\<close>\<close>

definition draw :: "rng \<Rightarrow> (string \<rightharpoonup> string) \<Rightarrow> string \<Rightarrow> error + (string \<times> rng)" where
  "draw r chars key =
     (case chars key of
        None \<Rightarrow> Inl KeyError
      | Some s \<Rightarrow> (case py_choice r s of Inl e \<Rightarrow> Inl e | Inr (x, r') \<Rightarrow> Inr ([x], r')))"

definition next_char ::
  "rng \<Rightarrow> char \<Rightarrow> (string \<rightharpoonup> string) \<Rightarrow> string \<Rightarrow> error + (string \<times> rng)" where
  "next_char r spec chars h =
     (if spec = CHR ''#'' then draw r chars (h @ ''-number'')
      else if spec = CHR ''$'' then draw r chars (h @ ''-symbol'')
      else if spec = CHR ''A'' then draw r chars (h @ ''-upper'')
      else if spec = CHR ''a'' then draw r chars (h @ ''-lower'')
      else if spec = CHR ''L'' then draw r chars (h @ ''-letter'')
      else if spec = CHR ''.'' then draw r chars (h @ ''-all'')
      else Inr ([], r))"

subsection \<open>\<open>get_word\<close>\<close>

definition get_word ::
  "rng \<Rightarrow> (string \<rightharpoonup> string list) \<Rightarrow> nat \<Rightarrow> nat \<Rightarrow> bool \<Rightarrow> string \<Rightarrow> error + (string \<times> rng)" where
  "get_word r words wmin wmax ev h =
     (let word_key = (if ev then ''even'' else h)
      in case words word_key of
           None \<Rightarrow> Inl KeyError
         | Some ws \<Rightarrow>
             (let valid_words = filter (\<lambda>w. wmin \<le> length w \<and> length w \<le> wmax) ws
              in case py_choice r valid_words of
                   Inl e \<Rightarrow> Inl e
                 | Inr (w, r') \<Rightarrow> Inr (title w, r')))"

subsection \<open>\<open>handed\<close>\<close>

definition handed :: "string \<Rightarrow> error + string" where
  "handed word =
     (case CHARS ''right-all'' of
        None \<Rightarrow> Inl KeyError
      | Some rights \<Rightarrow>
          (let coded = map (\<lambda>c. c \<in> set rights) word
           in if py_sum coded = 0 then Inr ''left''
              else if py_sum coded = length coded then Inr ''right''
              else
                (let pairs = map (\<lambda>ndx. coded ! (ndx - 1) \<noteq> coded ! ndx) [1..<length coded]
                 in if py_sum pairs = length pairs then Inr ''even'' else Inr ''mixed'')))"

subsection \<open>\<open>get_pass\<close>\<close>

text \<open>The local variables of \<open>get_pass\<close> that its loop updates.\<close>

record state =
  local_number :: "int list"
  local_symbol :: "int list"
  hand :: string
  next_hand :: string
  even_flag :: bool
  word_min :: nat
  word_max :: nat
  password :: string

definition initial :: state where
  "initial =
     \<lparr>local_number = [], local_symbol = [], hand = ''any'', next_hand = [],
      even_flag = False, word_min = 0, word_max = 0, password = []\<rparr>"

text \<open>
  The body of \<open>if word_min:\<close>: a word is added, the word lengths are reset, the hands
  are swapped when the word ends on the current hand, and the forced indexes that lie
  beyond the password are removed. With \<open>word_min = 0\<close> nothing happens.
\<close>

definition flush ::
  "rng \<Rightarrow> (string \<rightharpoonup> string list) \<Rightarrow> (string \<rightharpoonup> string) \<Rightarrow> state \<Rightarrow> error + (state \<times> rng)" where
  "flush r words chars s =
     (if word_min s \<noteq> 0 then
        (case get_word r words (word_min s) (word_max s) (even_flag s) (hand s) of
           Inl e \<Rightarrow> Inl e
         | Inr (w, r') \<Rightarrow>
             (let s1 = s\<lparr>password := password s @ w, word_min := 0, word_max := 0\<rparr>
              in case
                   (if even_flag s1 then
                      (case py_index (password s1) (- 1) of
                         Inl e \<Rightarrow> Inl e
                       | Inr c \<Rightarrow>
                           (case chars (hand s1 @ ''-all'') of
                              None \<Rightarrow> Inl KeyError
                            | Some hand_all \<Rightarrow>
                                Inr (if c \<in> set hand_all
                                     then s1\<lparr>hand := next_hand s1, next_hand := hand s1\<rparr>
                                     else s1)))
                    else Inr s1)
                 of
                   Inl e \<Rightarrow> Inl e
                 | Inr s2 \<Rightarrow>
                     Inr (s2\<lparr>local_number :=
                               filter (\<lambda>index. index < int (length (password s2)))
                                 (local_number s2),
                             local_symbol :=
                               filter (\<lambda>index. index < int (length (password s2)))
                                 (local_symbol s2)\<rparr>,
                          r')))
      else Inr (s, r))"

text \<open>
  The \<open>else\<close> branch of the loop body, for a character that is no word letter: flush,
  then add the next character, then update the hands.
\<close>

definition boundary ::
  "rng \<Rightarrow> (string \<rightharpoonup> string list) \<Rightarrow> (string \<rightharpoonup> string) \<Rightarrow> char \<Rightarrow> state
     \<Rightarrow> error + (state \<times> rng)" where
  "boundary r words chars c s =
     (case flush r words chars s of
        Inl e \<Rightarrow> Inl e
      | Inr (s1, r1) \<Rightarrow>
          (case next_char r1 c chars (hand s1) of
             Inl e \<Rightarrow> Inl e
           | Inr (lit, r2) \<Rightarrow>
               (let s2 = s1\<lparr>password := password s1 @ lit\<rparr>;
                    ((ev, h, nh), r3) =
                      check_hand r2 c (even_flag s2) (hand s2) (next_hand s2)
                in Inr (s2\<lparr>even_flag := ev, hand := h, next_hand := nh\<rparr>, r3))))"

text \<open>One round of the loop over the specification.\<close>

definition step ::
  "rng \<Rightarrow> (string \<rightharpoonup> string list) \<Rightarrow> (string \<rightharpoonup> string) \<Rightarrow> char \<Rightarrow> state
     \<Rightarrow> error + (state \<times> rng)" where
  "step r words chars c s =
     (case
        (if c \<in> set ''WNS'' then
           Inr (s\<lparr>word_min := word_min s + 1, word_max := word_max s + 1\<rparr>, r)
         else if c \<in> set ''wns'' then Inr (s\<lparr>word_max := word_max s + 1\<rparr>, r)
         else boundary r words chars c s)
      of
        Inl e \<Rightarrow> Inl e
      | Inr (s1, r1) \<Rightarrow>
          (let password_length = int (length (password s1)) + int (word_max s1)
           in if c \<in> set ''Nn'' then
                Inr (s1\<lparr>local_number := local_number s1 @ [password_length - 1]\<rparr>, r1)
              else if c \<in> set ''Ss'' then
                Inr (s1\<lparr>local_symbol := local_symbol s1 @ [password_length - 1]\<rparr>, r1)
              else Inr (s1, r1)))"

fun loop ::
  "rng \<Rightarrow> (string \<rightharpoonup> string list) \<Rightarrow> (string \<rightharpoonup> string) \<Rightarrow> string \<Rightarrow> state
     \<Rightarrow> error + (state \<times> rng)" where
  "loop r words chars [] s = Inr (s, r)"
| "loop r words chars (c # cs) s =
     (case step r words chars c s of
        Inl e \<Rightarrow> Inl e
      | Inr (s', r') \<Rightarrow> loop r' words chars cs s')"

text \<open>The first statement of \<open>get_pass\<close>: a word at the end gets its terminator.\<close>

definition terminated :: "string \<Rightarrow> error + string" where
  "terminated spec =
     (case py_index spec (- 1) of
        Inl e \<Rightarrow> Inl e
      | Inr c \<Rightarrow> Inr (if c \<in> set ''WwNnSs'' then spec @ '';'' else spec))"

text \<open>
  \<open>get_pass\<close> up to the forcing of characters, before the truncation. Of the two calls
  of \<open>force_char\<close> it uses the value returned.
\<close>

definition forced ::
  "rng \<Rightarrow> string \<Rightarrow> (string \<rightharpoonup> string list) \<Rightarrow> (string \<rightharpoonup> string) \<Rightarrow> (string \<rightharpoonup> pytable)
     \<Rightarrow> int list \<Rightarrow> int list \<Rightarrow> error + (string \<times> rng)" where
  "forced r spec words chars mapping to_number to_symbol =
     (case terminated spec of
        Inl e \<Rightarrow> Inl e
      | Inr spec1 \<Rightarrow>
     (case loop r words chars spec1 initial of
        Inl e \<Rightarrow> Inl e
      | Inr (s, r1) \<Rightarrow>
     (case mapping ''to-number'' of
        None \<Rightarrow> Inl KeyError
      | Some numbers \<Rightarrow>
     (case chars ''any-number'' of
        None \<Rightarrow> Inl KeyError
      | Some any_number \<Rightarrow>
     (case snd (force_char r1 (password s) (local_number s @ to_number) numbers any_number) of
        Inl e \<Rightarrow> Inl e
      | Inr (pw1, r2) \<Rightarrow>
     (case mapping ''to-symbol'' of
        None \<Rightarrow> Inl KeyError
      | Some symbols \<Rightarrow>
     (case chars ''any-symbol'' of
        None \<Rightarrow> Inl KeyError
      | Some any_symbol \<Rightarrow>
          snd (force_char r2 pw1 (local_symbol s @ to_symbol) symbols any_symbol))))))))"

text \<open>The last statements of \<open>get_pass\<close>: the random truncation.\<close>

definition truncated :: "rng \<Rightarrow> int \<Rightarrow> string \<Rightarrow> error + string" where
  "truncated r trunc pw =
     (if trunc \<noteq> 0 then
        (case py_randrange r (trunc + 1) of
           Inl e \<Rightarrow> Inl e
         | Inr (k, r') \<Rightarrow> Inr (if k \<noteq> 0 then py_slice_to pw (- k) else pw))
      else Inr pw)"

definition get_pass ::
  "rng \<Rightarrow> string \<Rightarrow> (string \<rightharpoonup> string list) \<Rightarrow> (string \<rightharpoonup> string) \<Rightarrow> (string \<rightharpoonup> pytable)
     \<Rightarrow> int list \<Rightarrow> int list \<Rightarrow> int \<Rightarrow> error + string" where
  "get_pass r spec words chars mapping to_number to_symbol trunc =
     (case forced r spec words chars mapping to_number to_symbol of
        Inl e \<Rightarrow> Inl e
      | Inr (pw, r') \<Rightarrow> truncated r' trunc pw)"

section \<open>Notions used by the statements\<close>

text \<open>\<open>mapping[key][letter]\<close>: what a letter is sent to by one table of a letter mapping.\<close>

definition lookup :: "(string \<rightharpoonup> pytable) \<Rightarrow> string \<Rightarrow> char \<Rightarrow> error + string" where
  "lookup mapping key c =
     (case mapping key of None \<Rightarrow> Inl KeyError | Some t \<Rightarrow> getitem t c)"

text \<open>The right-hand characters, as \<open>handed\<close> reads them from \<open>CHARS\<close>.\<close>

definition right_hand :: "char set" where
  "right_hand = (case CHARS ''right-all'' of None \<Rightarrow> {} | Some s \<Rightarrow> set s)"

text \<open>
  A mapping table whose values are single characters: whatever \<open>mapping[c]\<close> returns
  has length one.
\<close>

definition single_chars :: "pytable \<Rightarrow> bool" where
  "single_chars mapping = (\<forall>c v. getitem mapping c = Inr v \<longrightarrow> length v = 1)"

text \<open>
  A character table is complete when each of the eighteen keys, a hand followed by a kind,
  has a non-empty string. The hands that the loop of \<open>get_pass\<close> can reach: one of the
  three names and, in even-handed mode, \<open>left\<close> and \<open>right\<close> in some order.
\<close>

definition hand_names :: "string set" where
  "hand_names = {''any'', ''left'', ''right''}"

definition kind_suffixes :: "string set" where
  "kind_suffixes = {''-number'', ''-symbol'', ''-upper'', ''-lower'', ''-letter'', ''-all''}"

definition complete :: "(string \<rightharpoonup> string) \<Rightarrow> bool" where
  "complete chars =
     (\<forall>h\<in>hand_names. \<forall>k\<in>kind_suffixes. \<exists>s. chars (h @ k) = Some s \<and> s \<noteq> [])"

definition hands_ok :: "bool \<Rightarrow> string \<Rightarrow> string \<Rightarrow> bool" where
  "hands_ok ev h nh =
     (h \<in> hand_names \<and> (ev \<longrightarrow> h \<in> {''left'', ''right''} \<and> nh \<in> {''left'', ''right''}))"

text \<open>
  The kind of characters that \<open>next_char\<close> draws for a character of the specification:
  the second half of the key it reads in the character table.
\<close>

definition literal_key :: "char \<Rightarrow> string option" where
  "literal_key c =
     (if c = CHR ''#'' then Some ''-number''
      else if c = CHR ''$'' then Some ''-symbol''
      else if c = CHR ''A'' then Some ''-upper''
      else if c = CHR ''a'' then Some ''-lower''
      else if c = CHR ''L'' then Some ''-letter''
      else if c = CHR ''.'' then Some ''-all''
      else None)"

section \<open>The tables\<close>

lemma NUM_SYM_digits:
  "NUM_SYM ''1'' = Some ''!''" "NUM_SYM ''2'' = Some ''@''" "NUM_SYM ''3'' = Some ''#''"
  "NUM_SYM ''4'' = Some ''$''" "NUM_SYM ''5'' = Some ''%''" "NUM_SYM ''6'' = Some ''^''"
  "NUM_SYM ''7'' = Some ''&''" "NUM_SYM ''8'' = Some ''*''" "NUM_SYM ''9'' = Some ''(''"
  "NUM_SYM ''0'' = Some '')''"
  by (simp_all add: NUM_SYM_def py_dict_def py_zip_def)

lemma py_str_digit:
  "py_str 0 = ''0''" "py_str 1 = ''1''" "py_str 2 = ''2''" "py_str 3 = ''3''" "py_str 4 = ''4''"
  "py_str 5 = ''5''" "py_str 6 = ''6''" "py_str 7 = ''7''" "py_str 8 = ''8''" "py_str 9 = ''9''"
  by (simp_all add: py_str.simps)

text \<open>After its loop, \<open>MOD10\<close> holds the two strings written in the last round (letter 26).\<close>

lemma MOD10_value:
  "MOD10 = [''to-number'' \<mapsto> Str ''6'', ''to-symbol'' \<mapsto> Str ''^'']"
  by (simp add: MOD10_def lower_letters_def enumerate_eq_zip upt_rec py_str_digit
      NUM_SYM_digits fun_upd_twist)

lemma letters_cases:
  assumes "c \<in> set lower_letters"
    and "P CHR ''a''" "P CHR ''b''" "P CHR ''c''" "P CHR ''d''" "P CHR ''e''" "P CHR ''f''"
    and "P CHR ''g''" "P CHR ''h''" "P CHR ''i''" "P CHR ''j''" "P CHR ''k''" "P CHR ''l''"
    and "P CHR ''m''" "P CHR ''n''" "P CHR ''o''" "P CHR ''p''" "P CHR ''q''" "P CHR ''r''"
    and "P CHR ''s''" "P CHR ''t''" "P CHR ''u''" "P CHR ''v''" "P CHR ''w''" "P CHR ''x''"
    and "P CHR ''y''" "P CHR ''z''"
  shows "P c"
  using assms unfolding lower_letters_def by auto

text \<open>
  The telephone and the keyboard-column mappings are total on the lower-case letters: each
  letter has one digit, and its symbol is the digit's shifted symbol.
\<close>

lemma PHONE_total:
  assumes "c \<in> set lower_letters"
  shows "\<exists>d. lookup PHONE ''to-number'' c = Inr [d] \<and> d \<in> set ''23456789'' \<and>
             lookup PHONE ''to-symbol'' c = Inr (the (NUM_SYM [d]))"
  using assms
  by (rule letters_cases)
     (simp_all add: lookup_def PHONE_def py_dict_def py_zip_def lower_letters_def NUM_SYM_digits)

lemma VERTICAL_tables_value:
  "fst VERTICAL_tables =
     [
      ''z'' \<mapsto> ''1'', ''a'' \<mapsto> ''1'', ''q'' \<mapsto> ''1'', ''x'' \<mapsto> ''2'', ''s'' \<mapsto> ''2'', ''w'' \<mapsto> ''2'',
      ''c'' \<mapsto> ''3'', ''d'' \<mapsto> ''3'', ''e'' \<mapsto> ''3'', ''v'' \<mapsto> ''4'', ''f'' \<mapsto> ''4'', ''r'' \<mapsto> ''4'',
      ''b'' \<mapsto> ''5'', ''g'' \<mapsto> ''5'', ''t'' \<mapsto> ''5'', ''n'' \<mapsto> ''6'', ''h'' \<mapsto> ''6'', ''y'' \<mapsto> ''6'',
      ''m'' \<mapsto> ''7'', ''j'' \<mapsto> ''7'', ''u'' \<mapsto> ''7'', ''k'' \<mapsto> ''8'', ''i'' \<mapsto> ''8'', ''l'' \<mapsto> ''9'',
      ''o'' \<mapsto> ''9'', ''p'' \<mapsto> ''0'']"
  "snd VERTICAL_tables =
     [
      ''z'' \<mapsto> ''!'', ''a'' \<mapsto> ''!'', ''q'' \<mapsto> ''!'', ''x'' \<mapsto> ''@'', ''s'' \<mapsto> ''@'', ''w'' \<mapsto> ''@'',
      ''c'' \<mapsto> ''#'', ''d'' \<mapsto> ''#'', ''e'' \<mapsto> ''#'', ''v'' \<mapsto> ''$'', ''f'' \<mapsto> ''$'', ''r'' \<mapsto> ''$'',
      ''b'' \<mapsto> ''%'', ''g'' \<mapsto> ''%'', ''t'' \<mapsto> ''%'', ''n'' \<mapsto> ''^'', ''h'' \<mapsto> ''^'', ''y'' \<mapsto> ''^'',
      ''m'' \<mapsto> ''&'', ''j'' \<mapsto> ''&'', ''u'' \<mapsto> ''&'', ''k'' \<mapsto> ''*'', ''i'' \<mapsto> ''*'', ''l'' \<mapsto> ''('',
      ''o'' \<mapsto> ''('', ''p'' \<mapsto> '')'']"
  by (simp_all add: VERTICAL_tables_def VERT_BASE_def NUM_SYM_digits)

lemma VERTICAL_total:
  assumes "c \<in> set lower_letters"
  shows "\<exists>d. lookup VERTICAL ''to-number'' c = Inr [d] \<and> d \<in> set ''1234567890'' \<and>
             lookup VERTICAL ''to-symbol'' c = Inr (the (NUM_SYM [d]))"
  using assms
  by (rule letters_cases)
     (simp_all add: lookup_def VERTICAL_def VERTICAL_tables_value NUM_SYM_digits)

text \<open>The character table, entry by entry.\<close>

lemma hand_strings:
  "left_upper = ''QWERTASDFGZXCVB''"
  "left_letter = ''qwertasdfgzxcvbQWERTASDFGZXCVB''"
  "left_all = ''qwertasdfgzxcvbQWERTASDFGZXCVB12345!@#$%''"
  "right_upper = ''YUIOPHJKLNM''"
  "right_letter = ''yuiophjklnmYUIOPHJKLNM''"
  "right_all = ''yuiophjklnmYUIOPHJKLNM67890^&*()''"
proof -
  show lu: "left_upper = ''QWERTASDFGZXCVB''"
    by (simp add: left_upper_def left_lower_def upper_def upper_char_def lower_letters_def
        upper_letters_def)
  show ru: "right_upper = ''YUIOPHJKLNM''"
    by (simp add: right_upper_def right_lower_def upper_def upper_char_def lower_letters_def
        upper_letters_def)
  show ll: "left_letter = ''qwertasdfgzxcvbQWERTASDFGZXCVB''"
    by (simp add: left_letter_def left_lower_def lu)
  show rl: "right_letter = ''yuiophjklnmYUIOPHJKLNM''"
    by (simp add: right_letter_def right_lower_def ru)
  show "left_all = ''qwertasdfgzxcvbQWERTASDFGZXCVB12345!@#$%''"
    by (simp add: left_all_def ll left_number_def left_symbol_def)
  show "right_all = ''yuiophjklnmYUIOPHJKLNM67890^&*()''"
    by (simp add: right_all_def rl right_number_def right_symbol_def)
qed

lemma CHARS_hands_values:
  "CHARS_hands ''left-lower'' = Some ''qwertasdfgzxcvb''"
  "CHARS_hands ''left-upper'' = Some ''QWERTASDFGZXCVB''"
  "CHARS_hands ''left-letter'' = Some ''qwertasdfgzxcvbQWERTASDFGZXCVB''"
  "CHARS_hands ''left-number'' = Some ''12345''"
  "CHARS_hands ''left-symbol'' = Some ''!@#$%''"
  "CHARS_hands ''left-all'' = Some ''qwertasdfgzxcvbQWERTASDFGZXCVB12345!@#$%''"
  "CHARS_hands ''right-lower'' = Some ''yuiophjklnm''"
  "CHARS_hands ''right-upper'' = Some ''YUIOPHJKLNM''"
  "CHARS_hands ''right-letter'' = Some ''yuiophjklnmYUIOPHJKLNM''"
  "CHARS_hands ''right-number'' = Some ''67890''"
  "CHARS_hands ''right-symbol'' = Some ''^&*()''"
  "CHARS_hands ''right-all'' = Some ''yuiophjklnmYUIOPHJKLNM67890^&*()''"
  by (simp_all add: CHARS_hands_def hand_strings left_lower_def left_number_def
      left_symbol_def right_lower_def right_number_def right_symbol_def)

lemma CHARS_value:
  "CHARS = CHARS_hands
     (''any-lower'' \<mapsto> ''qwertasdfgzxcvbyuiophjklnm'',
      ''any-upper'' \<mapsto> ''QWERTASDFGZXCVBYUIOPHJKLNM'',
      ''any-letter'' \<mapsto> ''qwertasdfgzxcvbQWERTASDFGZXCVByuiophjklnmYUIOPHJKLNM'',
      ''any-number'' \<mapsto> ''1234567890'',
      ''any-symbol'' \<mapsto> ''!@#$%^&*()'',
      ''any-all'' \<mapsto>
        ''qwertasdfgzxcvbQWERTASDFGZXCVB12345!@#$%yuiophjklnmYUIOPHJKLNM67890^&*()'')"
  by (simp add: CHARS_def CHARS_hands_values)

lemma CHARS_values:
  "CHARS ''left-lower'' = Some ''qwertasdfgzxcvb''"
  "CHARS ''left-upper'' = Some ''QWERTASDFGZXCVB''"
  "CHARS ''left-letter'' = Some ''qwertasdfgzxcvbQWERTASDFGZXCVB''"
  "CHARS ''left-number'' = Some ''12345''"
  "CHARS ''left-symbol'' = Some ''!@#$%''"
  "CHARS ''left-all'' = Some ''qwertasdfgzxcvbQWERTASDFGZXCVB12345!@#$%''"
  "CHARS ''right-lower'' = Some ''yuiophjklnm''"
  "CHARS ''right-upper'' = Some ''YUIOPHJKLNM''"
  "CHARS ''right-letter'' = Some ''yuiophjklnmYUIOPHJKLNM''"
  "CHARS ''right-number'' = Some ''67890''"
  "CHARS ''right-symbol'' = Some ''^&*()''"
  "CHARS ''right-all'' = Some ''yuiophjklnmYUIOPHJKLNM67890^&*()''"
  "CHARS ''any-lower'' = Some ''qwertasdfgzxcvbyuiophjklnm''"
  "CHARS ''any-upper'' = Some ''QWERTASDFGZXCVBYUIOPHJKLNM''"
  "CHARS ''any-letter'' = Some ''qwertasdfgzxcvbQWERTASDFGZXCVByuiophjklnmYUIOPHJKLNM''"
  "CHARS ''any-number'' = Some ''1234567890''"
  "CHARS ''any-symbol'' = Some ''!@#$%^&*()''"
  "CHARS ''any-all'' =
     Some ''qwertasdfgzxcvbQWERTASDFGZXCVB12345!@#$%yuiophjklnmYUIOPHJKLNM67890^&*()''"
  by (simp_all add: CHARS_value CHARS_hands_values)

lemma CHARS_right_all: "CHARS ''right-all'' = Some ''yuiophjklnmYUIOPHJKLNM67890^&*()''"
  by (rule CHARS_values)

lemma PHONE_number:
  "PHONE ''to-number'' =
     Some (Dict (py_dict (py_zip lower_letters ''22233344455566677778889999'')))"
  by (simp add: PHONE_def)

lemma CHARS_any_number: "CHARS ''any-number'' = Some ''1234567890''"
  by (rule CHARS_values)

text \<open>
  Claim C1. The three letter mappings are meant to send every lower-case letter to one
  digit and one symbol, the modulus mapping to the digit \<open>i mod 10\<close> of the letter's
  position \<open>i\<close>. The telephone and keyboard tables do (\<open>PHONE_total\<close>,
  \<open>VERTICAL_total\<close>). The loop that fills \<open>MOD10\<close> stores each digit under the key
  \<open>to-number\<close> itself instead of under the letter, so \<open>MOD10\<close> ends with the strings
  \<open>6\<close> and \<open>^\<close> in place of its two tables, and looking a letter up in them raises
  \<open>TypeError\<close>: the letter \<open>a\<close> is not sent to \<open>1\<close>.
\<close>

theorem MOD10_lookup_fails:
  "MOD10 ''to-number'' = Some (Str ''6'') \<and> MOD10 ''to-symbol'' = Some (Str ''^'') \<and>
   lookup MOD10 ''to-number'' CHR ''a'' = Inl TypeError \<and>
   lookup MOD10 ''to-symbol'' CHR ''a'' = Inl TypeError \<and>
   lookup MOD10 ''to-number'' CHR ''a'' \<noteq> Inr (py_str (1 mod 10))"
  by (simp add: MOD10_value lookup_def)

section \<open>\<open>handed\<close>\<close>

lemma py_sum_zero: "py_sum bs = 0 \<longleftrightarrow> (\<forall>b\<in>set bs. \<not> b)"
  by (simp add: py_sum_def filter_empty_conv)

lemma py_sum_all: "py_sum bs = length bs \<longleftrightarrow> (\<forall>b\<in>set bs. b)"
  unfolding py_sum_def by (metis filter_id_conv length_filter_less less_irrefl_nat)

lemma adjacent_pairs:
  "(\<forall>b\<in>set (map (\<lambda>ndx. coded ! (ndx - 1) \<noteq> coded ! ndx) [1..<length coded]). b) \<longleftrightarrow>
   (\<forall>i. Suc i < length coded \<longrightarrow> coded ! i \<noteq> coded ! Suc i)"
proof
  assume l: "\<forall>b\<in>set (map (\<lambda>ndx. coded ! (ndx - 1) \<noteq> coded ! ndx) [1..<length coded]). b"
  show "\<forall>i. Suc i < length coded \<longrightarrow> coded ! i \<noteq> coded ! Suc i"
  proof (intro allI impI)
    fix i assume "Suc i < length coded"
    then have "Suc i \<in> {1..<length coded}" by simp
    moreover from l have "\<forall>ndx\<in>{1..<length coded}. coded ! (ndx - 1) \<noteq> coded ! ndx"
      by simp
    ultimately have "coded ! (Suc i - 1) \<noteq> coded ! Suc i" by blast
    then show "coded ! i \<noteq> coded ! Suc i" by simp
  qed
next
  assume r: "\<forall>i. Suc i < length coded \<longrightarrow> coded ! i \<noteq> coded ! Suc i"
  show "\<forall>b\<in>set (map (\<lambda>ndx. coded ! (ndx - 1) \<noteq> coded ! ndx) [1..<length coded]). b"
  proof
    fix b assume "b \<in> set (map (\<lambda>ndx. coded ! (ndx - 1) \<noteq> coded ! ndx) [1..<length coded])"
    then obtain ndx where n: "1 \<le> ndx" "ndx < length coded"
      and b: "b = (coded ! (ndx - 1) \<noteq> coded ! ndx)"
      by auto
    from n obtain i where "ndx = Suc i" by (cases ndx) auto
    with n r b show b by simp
  qed
qed

lemma right_hand_chars: "right_hand = set ''yuiophjklnmYUIOPHJKLNM67890^&*()''"
  by (simp only: right_hand_def CHARS_right_all option.case)

text \<open>
  Claim C7. \<open>handed\<close> answers \<open>left\<close> when no character of the word is a right-hand
  character (so for the empty word), \<open>right\<close> when, that not being the case, every
  character is one, \<open>even\<close> when some but not all are and every two neighbours differ
  in hand, and \<open>mixed\<close> otherwise.
\<close>

theorem handed_cases:
  "handed w =
     Inr (if \<forall>c\<in>set w. c \<notin> right_hand then ''left''
          else if \<forall>c\<in>set w. c \<in> right_hand then ''right''
          else if \<forall>i. Suc i < length w \<longrightarrow> (w ! i \<in> right_hand) \<noteq> (w ! Suc i \<in> right_hand)
               then ''even''
          else ''mixed'')"
proof -
  let ?ra = "''yuiophjklnmYUIOPHJKLNM67890^&*()''"
  let ?coded = "map (\<lambda>c. c \<in> set ?ra) w"
  note rh = right_hand_chars
  have none: "py_sum ?coded = 0 \<longleftrightarrow> (\<forall>c\<in>set w. c \<notin> right_hand)"
    unfolding py_sum_zero rh by (simp del: set_simps)
  have all: "py_sum ?coded = length ?coded \<longleftrightarrow> (\<forall>c\<in>set w. c \<in> right_hand)"
    unfolding py_sum_all rh by (simp del: set_simps)
  have pairs: "py_sum (map (\<lambda>ndx. ?coded ! (ndx - 1) \<noteq> ?coded ! ndx) [1..<length ?coded])
        = length (map (\<lambda>ndx. ?coded ! (ndx - 1) \<noteq> ?coded ! ndx) [1..<length ?coded]) \<longleftrightarrow>
      (\<forall>i. Suc i < length w \<longrightarrow> (w ! i \<in> right_hand) \<noteq> (w ! Suc i \<in> right_hand))"
    unfolding py_sum_all adjacent_pairs rh
    by (auto simp del: set_simps)
  have "handed w = (let coded = ?coded
           in if py_sum coded = 0 then Inr ''left''
              else if py_sum coded = length coded then Inr ''right''
              else
                (let pairs = map (\<lambda>ndx. coded ! (ndx - 1) \<noteq> coded ! ndx) [1..<length coded]
                 in if py_sum pairs = length pairs then Inr ''even'' else Inr ''mixed''))"
    by (simp only: handed_def CHARS_right_all option.case)
  also have "\<dots> = Inr (if \<forall>c\<in>set w. c \<notin> right_hand then ''left''
          else if \<forall>c\<in>set w. c \<in> right_hand then ''right''
          else if \<forall>i. Suc i < length w \<longrightarrow> (w ! i \<in> right_hand) \<noteq> (w ! Suc i \<in> right_hand)
               then ''even''
          else ''mixed'')"
    unfolding Let_def none all pairs by simp
  finally show ?thesis .
qed

theorem handed_cases_witness:
  "handed [] = Inr ''left'' \<and> handed ''p'' = Inr ''right'' \<and>
   handed ''pale'' = Inr ''even'' \<and> handed ''hello'' = Inr ''mixed''"
proof -
  note rh = right_hand_chars
  have 1: "handed [] = Inr ''left''" using handed_cases [of "[]"] by simp
  have 2: "handed ''p'' = Inr ''right''" using handed_cases [of "''p''"] by (simp add: rh)
  have 3: "handed ''pale'' = Inr ''even''" using handed_cases [of "''pale''"]
    by (simp add: rh less_Suc_eq nth_Cons')
  have "\<not> (\<forall>i. Suc i < length ''hello'' \<longrightarrow>
             (''hello'' ! i \<in> right_hand) \<noteq> (''hello'' ! Suc i \<in> right_hand))"
    by (rule notI, drule spec [of _ 2], simp add: rh)
  then have 4: "handed ''hello'' = Inr ''mixed''" using handed_cases [of "''hello''"]
    by (simp add: rh)
  from 1 2 3 4 show ?thesis by blast
qed

section \<open>The empty specification\<close>

text \<open>
  Claim C9. \<open>get_pass\<close> reads the last character of the specification before its loop
  starts. On the empty specification that read fails with \<open>IndexError\<close>, whatever the
  other arguments are, and no password is returned; on a specification with at least one
  character it succeeds and the specification is completed by \<open>;\<close> when it ends in a
  word letter.
\<close>

theorem get_pass_empty_spec:
  "get_pass r [] words chars mapping to_number to_symbol trunc = Inl IndexError \<and>
   py_index (c # cs) (- 1) = Inr (last (c # cs)) \<and>
   terminated (c # cs) =
     Inr (if last (c # cs) \<in> set ''WwNnSs'' then (c # cs) @ '';'' else c # cs)"
proof -
  have idx: "py_index (c # cs) (- 1) = Inr (last (c # cs))"
    by (simp add: py_index_def last_conv_nth nat_add_distrib del: last.simps)
  have "terminated [] = Inl IndexError" by (simp add: terminated_def py_index_def)
  then have "get_pass r [] words chars mapping to_number to_symbol trunc = Inl IndexError"
    by (simp add: get_pass_def forced_def force_char_def)
  moreover have "terminated (c # cs) =
     Inr (if last (c # cs) \<in> set ''WwNnSs'' then (c # cs) @ '';'' else c # cs)"
    unfolding terminated_def idx by simp
  ultimately show ?thesis using idx by blast
qed

section \<open>\<open>force_char\<close>: what it changes\<close>

lemma force_loop_skip:
  "int (length pw) \<le> i \<Longrightarrow>
   force_loop r pw (i # is) mapping any_char = force_loop r pw is mapping any_char"
  by simp

lemma force_loop_in_range:
  assumes "0 \<le> i" "i < int (length pw)"
  shows "force_loop r pw (i # is) mapping any_char =
     (case replacement r (pw ! nat i) mapping any_char of
        Inl e \<Rightarrow> Inl e
      | Inr (ch, r') \<Rightarrow>
          force_loop r' (take (nat i) pw @ ch @ drop (Suc (nat i)) pw) is mapping any_char)"
proof -
  from assms have a: "py_index pw i = Inr (pw ! nat i)"
    by (simp add: py_index_def)
  from assms have b: "py_slice_to pw i = take (nat i) pw"
    by (simp add: py_slice_to_def)
  from assms have "nat (i + 1) = Suc (nat i)" by simp
  with assms have c: "py_slice_from pw (i + 1) = drop (Suc (nat i)) pw"
    by (simp add: py_slice_from_def)
  from assms show ?thesis
    by (simp add: a b c cong: sum.case_cong)
qed

lemma replacement_single:
  assumes "single_chars mapping" "replacement r c mapping any_char = Inr (ch, r')"
  shows "\<exists>x. ch = [x]"
proof (cases "contains mapping c")
  case True
  with assms(2) have "getitem mapping c = Inr ch"
    by (auto simp: replacement_def split: sum.splits)
  with assms(1) have "length ch = 1" by (auto simp: single_chars_def)
  then show ?thesis by (cases ch) auto
next
  case False
  with assms(2) show ?thesis
    by (auto simp: replacement_def split: sum.splits)
qed

lemma splice_update:
  "n < length pw \<Longrightarrow> take n pw @ [x] @ drop (Suc n) pw = pw[n := x]"
  by (simp add: upd_conv_take_nth_drop)

lemma force_loop_frame_aux:
  assumes "single_chars mapping" "\<forall>i\<in>set is. 0 \<le> i"
    "force_loop r pw is mapping any_char = Inr (pw', r')"
  shows "length pw' = length pw \<and> (\<forall>j<length pw. int j \<notin> set is \<longrightarrow> pw' ! j = pw ! j)"
  using assms(2,3)
proof (induction "is" arbitrary: pw r)
  case Nil
  then show ?case by simp
next
  case (Cons i "is")
  show ?case
  proof (cases "int (length pw) \<le> i")
    case True
    with Cons.prems have "force_loop r pw is mapping any_char = Inr (pw', r')" by simp
    with Cons.IH Cons.prems(1) show ?thesis by simp
  next
    case False
    with Cons.prems have i: "0 \<le> i" "i < int (length pw)" by auto
    from Cons.prems(2) obtain ch r1 where
      rep: "replacement r (pw ! nat i) mapping any_char = Inr (ch, r1)" and
      run: "force_loop r1 (take (nat i) pw @ ch @ drop (Suc (nat i)) pw) is mapping any_char
             = Inr (pw', r')"
      unfolding force_loop_in_range [OF i] by (auto split: sum.splits)
    from replacement_single [OF assms(1) rep] obtain x where ch: "ch = [x]" ..
    from i have n: "nat i < length pw" by simp
    from run have run': "force_loop r1 (pw[nat i := x]) is mapping any_char = Inr (pw', r')"
      unfolding ch splice_update [OF n] .
    from Cons.IH [OF _ run'] Cons.prems(1)
    have ih: "length pw' = length pw"
      "\<forall>j<length pw. int j \<notin> set is \<longrightarrow> pw' ! j = pw[nat i := x] ! j"
      by simp_all
    have "\<forall>j<length pw. int j \<notin> set (i # is) \<longrightarrow> pw' ! j = pw ! j"
    proof (intro allI impI)
      fix j assume j: "j < length pw" "int j \<notin> set (i # is)"
      then have "j \<noteq> nat i" using i by auto
      with ih(2) j show "pw' ! j = pw ! j" by simp
    qed
    with ih(1) show ?thesis by simp
  qed
qed

lemma force_loop_filter_aux:
  assumes "single_chars mapping" "\<forall>i\<in>set is. 0 \<le> i"
  shows "force_loop r pw (filter (\<lambda>i. i < int (length pw)) is) mapping any_char =
         force_loop r pw is mapping any_char"
  using assms(2)
proof (induction "is" arbitrary: pw r)
  case Nil
  then show ?case by simp
next
  case (Cons i "is")
  show ?case
  proof (cases "int (length pw) \<le> i")
    case True
    with Cons show ?thesis by simp
  next
    case False
    with Cons.prems have i: "0 \<le> i" "i < int (length pw)" by auto
    then have n: "nat i < length pw" by simp
    show ?thesis
    proof (cases "replacement r (pw ! nat i) mapping any_char")
      case (Inl e)
      with i show ?thesis by (simp add: force_loop_in_range [OF i] del: force_loop.simps)
    next
      case (Inr p)
      obtain ch r1 where p: "p = (ch, r1)" by (cases p)
      from replacement_single [OF assms(1) Inr [unfolded p]] obtain x where ch: "ch = [x]" ..
      have step: "force_loop r pw (i # js) mapping any_char =
                  force_loop r1 (pw[nat i := x]) js mapping any_char" for js
        by (simp add: force_loop_in_range [OF i] Inr p ch upd_conv_take_nth_drop [OF n]
            del: force_loop.simps)
      have "force_loop r1 (pw[nat i := x])
              (filter (\<lambda>k. k < int (length (pw[nat i := x]))) is) mapping any_char =
            force_loop r1 (pw[nat i := x]) is mapping any_char"
        by (rule Cons.IH) (use Cons.prems in simp)
      then have "force_loop r pw (i # filter (\<lambda>k. k < int (length pw)) is) mapping any_char =
                 force_loop r pw (i # is) mapping any_char"
        unfolding step by simp
      with i show ?thesis by simp
    qed
  qed
qed

lemma force_loop_returns_aux:
  assumes "any_char \<noteq> []" "\<forall>i\<in>set is. 0 \<le> i"
  shows "\<exists>pw' r'. force_loop r pw is (Dict m) any_char = Inr (pw', r')"
  using assms(2)
proof (induction "is" arbitrary: pw r)
  case Nil
  then show ?case by simp
next
  case (Cons i "is")
  show ?case
  proof (cases "int (length pw) \<le> i")
    case True
    with Cons show ?thesis by simp
  next
    case False
    with Cons.prems have i: "0 \<le> i" "i < int (length pw)" by auto
    from assms(1) obtain ch r1 where
      "replacement r (pw ! nat i) (Dict m) any_char = Inr (ch, r1)"
      by (cases "m [pw ! nat i]") (auto simp: replacement_def py_choice_def)
    moreover from Cons.IH Cons.prems obtain pw' r' where
      "force_loop r1 (take (nat i) pw @ ch @ drop (Suc (nat i)) pw) is (Dict m) any_char
         = Inr (pw', r')"
      by fastforce
    ultimately show ?thesis unfolding force_loop_in_range [OF i] by simp
  qed
qed

lemma snd_force_char:
  "snd (force_char r pw indexes mapping any_char) = force_loop r pw indexes mapping any_char"
  by (simp add: force_char_def)

text \<open>
  Claim C10 says that for every password and every list of non-negative indexes
  \<open>force_char\<close> returns a password of the same length. A mapping is a dictionary of
  strings, and a value of two characters makes the password longer: \<open>abc\<close> forced at 1
  and 2 under the mapping of \<open>b\<close> to \<open>XY\<close> comes back as \<open>aX1c\<close>. With the table
  that the module's own \<open>MOD10\<close> holds, the password \<open>a6\<close> forced at 1 comes back not
  at all: the call raises \<open>TypeError\<close>.
\<close>

theorem force_char_length_counterexample:
  "snd (force_char (\<lambda>_. 0) ''abc'' [1, 2] (Dict [''b'' \<mapsto> ''XY'']) ''1234567890'') =
     Inr (''aX1c'', \<lambda>_. 0) \<and>
   length ''aX1c'' \<noteq> length ''abc'' \<and>
   (\<exists>t an. MOD10 ''to-number'' = Some t \<and> CHARS ''any-number'' = Some an \<and>
      snd (force_char (\<lambda>_. 0) ''a6'' [1] t an) = Inl TypeError)"
  by (simp add: force_char_def py_index_def py_slice_to_def py_slice_from_def replacement_def
      py_choice_def rest_def MOD10_value CHARS_any_number)

text \<open>
  Claim C10, amended. Let the indexes be non-negative and let every value of the mapping
  be a single character. Whenever \<open>force_char\<close> returns a password, it has the length of
  the password that came in and every position that is not in the list keeps its
  character. An index at or beyond the length of the password is skipped: with these
  indexes removed from the list the call returns the same password and makes the same
  random draws. Skipping does not touch what the call prints: a list that is not empty
  makes it print the password that came in, also when all its indexes are skipped, and
  the empty list makes it print nothing. \<open>force_char\<close> does return a password when
  the mapping is a dictionary and the string of characters to fall back on is not empty.
\<close>

theorem force_char_frame:
  assumes "\<forall>i\<in>set indexes. 0 \<le> i" and "single_chars mapping"
  shows "(\<forall>pw' r'. snd (force_char r pw indexes mapping any_char) = Inr (pw', r') \<longrightarrow>
            length pw' = length pw \<and>
            (\<forall>j<length pw. int j \<notin> set indexes \<longrightarrow> pw' ! j = pw ! j)) \<and>
         snd (force_char r pw (filter (\<lambda>i. i < int (length pw)) indexes) mapping any_char) =
           snd (force_char r pw indexes mapping any_char) \<and>
         fst (force_char r pw indexes mapping any_char) =
           (if indexes = [] then [] else [''Password before forcing characters: '' @ pw]) \<and>
         ((\<exists>m. mapping = Dict m) \<and> any_char \<noteq> [] \<longrightarrow>
            (\<exists>pw' r'. snd (force_char r pw indexes mapping any_char) = Inr (pw', r')))"
proof -
  have "fst (force_char r pw indexes mapping any_char) =
           (if indexes = [] then [] else [''Password before forcing characters: '' @ pw])"
    by (simp add: force_char_def)
  then show ?thesis
    unfolding snd_force_char
    using force_loop_frame_aux [OF assms(2,1)] force_loop_filter_aux [OF assms(2,1)]
      force_loop_returns_aux [OF _ assms(1)]
    by blast
qed

theorem force_char_frame_witness:
  "\<exists>pw' r'. snd (force_char (\<lambda>_. 0) ''ab1'' [0, 5, 2] (Dict [''a'' \<mapsto> ''2'']) ''1234567890'')
              = Inr (pw', r') \<and> length pw' = 3 \<and> pw' ! 1 = CHR ''b''"
proof -
  have h1: "\<forall>i\<in>set [0, 5, 2::int]. 0 \<le> i" by simp
  have h2: "single_chars (Dict [''a'' \<mapsto> ''2''])"
    by (simp add: single_chars_def split: if_splits)
  from force_char_frame [OF h1 h2, of "\<lambda>_. 0" "''ab1''" "''1234567890''"]
  obtain pw' r' where
    run: "snd (force_char (\<lambda>_. 0) ''ab1'' [0, 5, 2] (Dict [''a'' \<mapsto> ''2'']) ''1234567890'')
           = Inr (pw', r')"
    and frame: "length pw' = length ''ab1''"
      "\<forall>j<length ''ab1''. int j \<notin> set [0, 5, 2] \<longrightarrow> pw' ! j = ''ab1'' ! j"
    by blast
  from frame(2) have "pw' ! 1 = ''ab1'' ! 1" by simp
  with run frame(1) show ?thesis by simp
qed

section \<open>Forcing an index twice\<close>

text \<open>
  Claim C4 says that forcing an index twice gives the character that forcing it once
  gives. With the telephone mapping and the digits to fall back on, the password \<open>a\<close>
  forced at index 0 becomes \<open>2\<close>; forced at index 0 twice it becomes \<open>7\<close> when the
  random choice picks position 6: the digit \<open>2\<close> is not a key of the mapping, so the
  second round replaces it by a random digit.
\<close>

theorem force_twice_counterexample:
  "\<exists>t an. PHONE ''to-number'' = Some t \<and> CHARS ''any-number'' = Some an \<and>
     snd (force_char (\<lambda>_. 6) ''a'' [0] t an) = Inr (''2'', \<lambda>_. 6) \<and>
     snd (force_char (\<lambda>_. 6) ''a'' [0, 0] t an) = Inr (''7'', \<lambda>_. 6)"
  by (simp add: force_char_def PHONE_number CHARS_any_number py_index_def py_slice_to_def
      py_slice_from_def replacement_def py_dict_def py_zip_def lower_letters_def py_choice_def
      rest_def)

text \<open>
  Claim C4, amended. Let a non-negative index be forced once, under a mapping whose values
  are single characters, let that return a password, and let \<open>c\<close> be the character that
  the once-forced password has at the index. Forcing the index twice is forcing the
  once-forced password again. For an index at or beyond the length of the password both
  rounds leave the password and the random source as they are. For an index in range
  the second round replaces \<open>c\<close> by the value of the mapping for \<open>c\<close> when \<open>c\<close> is a
  key, and by a fresh random character of the fallback string when it is not (it raises
  \<open>IndexError\<close> when that string is empty). So the twice-forced character is the
  once-forced character exactly when \<open>c\<close> is a key that the mapping sends to itself, or
  \<open>c\<close> is no key and the fresh draw picks \<open>c\<close> again.
\<close>

theorem force_twice:
  assumes "0 \<le> i" and "single_chars mapping"
    and once: "snd (force_char r pw [i] mapping any_char) = Inr (pw1, r1)"
  shows "snd (force_char r pw [i, i] mapping any_char) =
           snd (force_char r1 pw1 [i] mapping any_char) \<and>
         (int (length pw) \<le> i \<longrightarrow>
            pw1 = pw \<and> r1 = r \<and>
            snd (force_char r1 pw1 [i] mapping any_char) = Inr (pw1, r1)) \<and>
         (i < int (length pw) \<longrightarrow>
            snd (force_char r1 pw1 [i] mapping any_char) =
              (if contains mapping (pw1 ! nat i) then
                 (case getitem mapping (pw1 ! nat i) of
                    Inl e \<Rightarrow> Inl e
                  | Inr v \<Rightarrow> Inr (pw1[nat i := hd v], r1))
               else if any_char = [] then Inl IndexError
               else Inr (pw1[nat i := any_char ! (r1 0 mod length any_char)], rest r1))) \<and>
         (i < int (length pw) \<longrightarrow>
            (\<forall>pw2 r2. snd (force_char r1 pw1 [i] mapping any_char) = Inr (pw2, r2) \<longrightarrow>
               (pw2 ! nat i = pw1 ! nat i \<longleftrightarrow>
                  contains mapping (pw1 ! nat i) \<and>
                    getitem mapping (pw1 ! nat i) = Inr [pw1 ! nat i] \<or>
                  \<not> contains mapping (pw1 ! nat i) \<and>
                    any_char ! (r1 0 mod length any_char) = pw1 ! nat i)))"
proof -
  note once' = once [unfolded snd_force_char]
  have len: "length pw1 = length pw"
    using force_loop_frame_aux [OF assms(2) _ once'] assms(1) by simp
  have beyond: "pw1 = pw \<and> r1 = r \<and> force_loop r1 pw1 [i] mapping any_char = Inr (pw1, r1)"
    if b: "int (length pw) \<le> i"
  proof -
    from b have skip: "force_loop r pw [i] mapping any_char = Inr (pw, r)" by simp
    with once' have "Inr (pw, r) = (Inr (pw1, r1) :: error + string \<times> rng)" by simp
    then have e: "pw1 = pw" "r1 = r" by simp_all
    show ?thesis unfolding e using skip by simp
  qed
  have twice: "force_loop r pw [i, i] mapping any_char = force_loop r1 pw1 [i] mapping any_char"
  proof (cases "int (length pw) \<le> i")
    case True
    with once' have "pw1 = pw" "r1 = r" by simp_all
    with True show ?thesis by simp
  next
    case False
    with assms(1) have i: "0 \<le> i" "i < int (length pw)" by simp_all
    from once' obtain ch where
      "replacement r (pw ! nat i) mapping any_char = Inr (ch, r1)"
      "pw1 = take (nat i) pw @ ch @ drop (Suc (nat i)) pw"
      unfolding force_loop_in_range [OF i] by (auto split: sum.splits)
    then show ?thesis
      unfolding force_loop_in_range [OF i, of r "[i]"] by simp
  qed
  let ?c = "pw1 ! nat i"
  let ?again = "if contains mapping ?c then
                 (case getitem mapping ?c of
                    Inl e \<Rightarrow> Inl e
                  | Inr v \<Rightarrow> Inr (pw1[nat i := hd v], r1))
               else if any_char = [] then Inl IndexError
               else Inr (pw1[nat i := any_char ! (r1 0 mod length any_char)], rest r1)"
  have again: "force_loop r1 pw1 [i] mapping any_char = ?again" if "i < int (length pw)"
  proof -
    from that assms(1) len have i1: "0 \<le> i" "i < int (length pw1)" by simp_all
    then have n1: "nat i < length pw1" by simp
    have run: "force_loop r1 pw1 [i] mapping any_char =
        (case replacement r1 ?c mapping any_char of
           Inl e \<Rightarrow> Inl e
         | Inr (ch, r') \<Rightarrow> Inr (take (nat i) pw1 @ ch @ drop (Suc (nat i)) pw1, r'))"
      unfolding force_loop_in_range [OF i1] by (simp cong: sum.case_cong)
    show ?thesis
    proof (cases "contains mapping ?c")
      case True
      show ?thesis
      proof (cases "getitem mapping ?c")
        case (Inl e)
        with True show ?thesis unfolding run by (simp add: replacement_def)
      next
        case (Inr v)
        with assms(2) have "length v = 1" by (auto simp: single_chars_def)
        then obtain x where "v = [x]" by (cases v) auto
        with True Inr n1 show ?thesis
          unfolding run by (simp add: replacement_def upd_conv_take_nth_drop [symmetric])
      qed
    next
      case False
      with n1 show ?thesis
        unfolding run
        by (simp add: replacement_def py_choice_def upd_conv_take_nth_drop [symmetric])
    qed
  qed
  have same: "pw2 ! nat i = ?c \<longleftrightarrow>
                  contains mapping ?c \<and> getitem mapping ?c = Inr [?c] \<or>
                  \<not> contains mapping ?c \<and> any_char ! (r1 0 mod length any_char) = ?c"
    if "i < int (length pw)" "force_loop r1 pw1 [i] mapping any_char = Inr (pw2, r2)"
    for pw2 r2
  proof -
    from that(1) assms(1) len have n1: "nat i < length pw1" by simp
    from that(2) have eq: "?again = Inr (pw2, r2)" unfolding again [OF that(1)] .
    show ?thesis
    proof (cases "contains mapping ?c")
      case True
      with eq obtain v where v: "getitem mapping ?c = Inr v" and pw2: "pw2 = pw1[nat i := hd v]"
        by (auto split: sum.splits)
      from v assms(2) have "length v = 1" by (auto simp: single_chars_def)
      then obtain x where x: "v = [x]" by (cases v) auto
      with pw2 n1 have "pw2 ! nat i = x" by simp
      with True v x show ?thesis by auto
    next
      case False
      with eq have "pw2 = pw1[nat i := any_char ! (r1 0 mod length any_char)]"
        by (auto split: if_splits)
      with n1 have "pw2 ! nat i = any_char ! (r1 0 mod length any_char)" by simp
      with False show ?thesis by simp
    qed
  qed
  from twice beyond again same show ?thesis
    unfolding snd_force_char by blast
qed

theorem force_twice_witness:
  "snd (force_char (\<lambda>_. 6) ''a'' [0, 0] (Dict [''a'' \<mapsto> ''2'']) ''1234567890'') =
     Inr (''7'', \<lambda>_. 6)"
proof -
  have h: "single_chars (Dict [''a'' \<mapsto> ''2''])"
    by (simp add: single_chars_def split: if_splits)
  have once: "snd (force_char (\<lambda>_. 6) ''a'' [0] (Dict [''a'' \<mapsto> ''2'']) ''1234567890'')
                = Inr (''2'', \<lambda>_. 6)"
    by (simp add: force_char_def py_index_def py_slice_to_def py_slice_from_def
        replacement_def)
  have z: "(0::int) \<le> 0" by simp
  from force_twice [OF z h once]
  have "snd (force_char (\<lambda>_. 6) ''a'' [0, 0] (Dict [''a'' \<mapsto> ''2'']) ''1234567890'') =
        snd (force_char (\<lambda>_. 6) ''2'' [0] (Dict [''a'' \<mapsto> ''2'']) ''1234567890'')"
    and "snd (force_char (\<lambda>_. 6) ''2'' [0] (Dict [''a'' \<mapsto> ''2'']) ''1234567890'') =
        Inr (''2''[nat 0 := ''1234567890'' ! ((\<lambda>_. 6) 0 mod length ''1234567890'')],
             rest (\<lambda>_. 6))"
    by simp_all
  then show ?thesis by (simp add: rest_def)
qed

section \<open>Truncation\<close>

lemma truncated_take:
  assumes "0 \<le> trunc"
  shows "truncated r trunc pw = Inr (take (length pw - r 0 mod (nat trunc + 1)) pw)"
proof (cases "trunc = 0")
  case True
  then show ?thesis by (simp add: truncated_def)
next
  case False
  with assms have pos: "0 < trunc" by simp
  then have n: "nat (trunc + 1) = nat trunc + 1" by simp
  show ?thesis
  proof (cases "r 0 mod (nat trunc + 1) = 0")
    case True
    with pos show ?thesis by (simp add: truncated_def py_randrange_def n)
  next
    case False
    have "nat (int (length pw) - int (r 0 mod (nat trunc + 1))) =
          length pw - r 0 mod (nat trunc + 1)"
      by simp
    with False pos show ?thesis
      by (simp add: truncated_def py_randrange_def n py_slice_to_def)
  qed
qed

lemma mod_count:
  fixes b k m :: nat
  assumes "k < b"
  shows "card {n. n < m * b \<and> n mod b = k} = m"
proof -
  have "{n. n < m * b \<and> n mod b = k} = (\<lambda>j. j * b + k) ` {..<m}"
  proof (intro set_eqI iffI)
    fix n assume "n \<in> {n. n < m * b \<and> n mod b = k}"
    then have n: "n < m * b" "n mod b = k" by simp_all
    from n(1) assms have "n div b < m"
      by (simp add: less_mult_imp_div_less)
    moreover from n(2) have "n = (n div b) * b + k"
      using div_mult_mod_eq [of n b] by simp
    ultimately show "n \<in> (\<lambda>j. j * b + k) ` {..<m}" by blast
  next
    fix n assume "n \<in> (\<lambda>j. j * b + k) ` {..<m}"
    then obtain j where j: "j < m" "n = j * b + k" by auto
    from j(1) have "Suc j * b \<le> m * b" by (simp add: Suc_leI mult_le_mono1 del: mult_Suc)
    with assms j(2) have "n < m * b" by simp
    moreover from assms j(2) have "n mod b = k" by simp
    ultimately show "n \<in> {n. n < m * b \<and> n mod b = k}" by simp
  qed
  moreover have "inj_on (\<lambda>j. j * b + k) {..<m}"
    using assms by (auto simp: inj_on_def)
  ultimately show ?thesis by (simp add: card_image)
qed

lemma randrange_count:
  assumes "0 \<le> trunc" "k \<le> nat trunc"
  shows "card {n. n < m * (nat trunc + 1) \<and>
                  py_randrange (\<lambda>_. n) (trunc + 1) = Inr (int k, rest (\<lambda>_. n))} = m"
proof -
  from assms(1) have b: "nat (trunc + 1) = nat trunc + 1" by simp
  have "py_randrange (\<lambda>_. n) (trunc + 1) = Inr (int k, rest (\<lambda>_. n)) \<longleftrightarrow>
        n mod (nat trunc + 1) = k" for n
    using assms(1) by (simp add: py_randrange_def b)
  then have "{n. n < m * (nat trunc + 1) \<and>
                  py_randrange (\<lambda>_. n) (trunc + 1) = Inr (int k, rest (\<lambda>_. n))} =
             {n. n < m * (nat trunc + 1) \<and> n mod (nat trunc + 1) = k}"
    by simp
  moreover from assms(2) have "k < nat trunc + 1" by simp
  ultimately show ?thesis by (simp only: mod_count)
qed

lemma forced_one_digit:
  "forced r ''#'' Map.empty CHARS MOD10 [] [] = Inr ([''1234567890'' ! (r 0 mod 10)], rest r)"
  by (simp add: forced_def force_char_def terminated_def py_index_def step_def boundary_def
      flush_def initial_def next_char_def draw_def CHARS_values check_hand_def py_choice_def
      MOD10_value)

text \<open>
  Claim C8 says that the number of characters removed is drawn uniformly from 0 to
  \<open>trunc\<close>. The number drawn is not the number removed when the password is shorter:
  the specification \<open>#\<close> gives a password of one character, and with \<open>trunc = 3\<close> and
  a draw of 3 the password \<open>4\<close> is returned empty, one character removed. For no random
  source are two or three characters removed from it, so the number removed is not drawn
  uniformly from 0 to 3.
\<close>

theorem truncation_counterexample:
  "forced (\<lambda>_. 3) ''#'' Map.empty CHARS MOD10 [] [] = Inr (''4'', \<lambda>_. 3) \<and>
   py_randrange (\<lambda>_. 3) (3 + 1) = Inr (3, \<lambda>_. 3) \<and>
   get_pass (\<lambda>_. 3) ''#'' Map.empty CHARS MOD10 [] [] 3 = Inr [] \<and>
   (\<forall>r. \<exists>pw r' pw'.
      forced r ''#'' Map.empty CHARS MOD10 [] [] = Inr (pw, r') \<and>
      get_pass r ''#'' Map.empty CHARS MOD10 [] [] 3 = Inr pw' \<and>
      length pw = 1 \<and> length pw - length pw' \<le> 1)"
proof -
  have a: "forced (\<lambda>_. 3) ''#'' Map.empty CHARS MOD10 [] [] = Inr (''4'', \<lambda>_. 3)"
    by (simp add: forced_one_digit rest_def)
  have b: "py_randrange (\<lambda>_. 3) (3 + 1) = Inr (3, \<lambda>_. 3)"
    by (simp add: py_randrange_def rest_def)
  have c: "get_pass (\<lambda>_. 3) ''#'' Map.empty CHARS MOD10 [] [] 3 = Inr []"
    by (simp add: get_pass_def a truncated_take)
  have d: "\<exists>pw r' pw'.
      forced r ''#'' Map.empty CHARS MOD10 [] [] = Inr (pw, r') \<and>
      get_pass r ''#'' Map.empty CHARS MOD10 [] [] 3 = Inr pw' \<and>
      length pw = 1 \<and> length pw - length pw' \<le> 1" for r
    by (simp add: get_pass_def forced_one_digit truncated_take)
  from a b c d show ?thesis by blast
qed

text \<open>
  Claim C8, amended. Let the password before truncation be \<open>pw\<close> and let \<open>trunc\<close> be
  non-negative. \<open>get_pass\<close> returns \<open>pw\<close> without its last \<open>k\<close> characters, or empty
  when \<open>pw\<close> has fewer than \<open>k\<close>: the number of characters removed is the smaller of
  \<open>k\<close> and the length of \<open>pw\<close>, and so at most \<open>trunc\<close>. For \<open>trunc = 0\<close>
  \<open>k\<close> is 0 and the password is returned as it is. For a positive \<open>trunc\<close> the
  number \<open>k\<close> is the one that \<open>random.randrange(trunc + 1)\<close> returns, a number from 0
  to \<open>trunc\<close>. Each of these numbers is returned for some random source, and each for
  equally many values of the next number of the source: among the first
  \<open>m * (trunc + 1)\<close> natural numbers exactly \<open>m\<close> give \<open>k\<close>. In this sense the
  draw of \<open>k\<close>, though not the number of characters removed, is uniform over its range.
\<close>

theorem truncation_bound:
  assumes "0 \<le> trunc"
    and "forced r spec words chars mapping to_number to_symbol = Inr (pw, r')"
  shows "(\<exists>k pw'. get_pass r spec words chars mapping to_number to_symbol trunc = Inr pw' \<and>
            pw' = take (length pw - k) pw \<and>
            length pw - length pw' = min k (length pw) \<and>
            k \<le> nat trunc \<and>
            (trunc = 0 \<longrightarrow> k = 0 \<and> pw' = pw) \<and>
            (0 < trunc \<longrightarrow> py_randrange r' (trunc + 1) = Inr (int k, rest r'))) \<and>
         (\<forall>k\<le>nat trunc. \<exists>\<rho>.
            py_randrange \<rho> (trunc + 1) = Inr (int k, rest \<rho>) \<and>
            truncated \<rho> trunc pw = Inr (take (length pw - k) pw)) \<and>
         (\<forall>m. \<forall>k\<le>nat trunc.
            card {n. n < m * (nat trunc + 1) \<and>
                     py_randrange (\<lambda>_. n) (trunc + 1) = Inr (int k, rest (\<lambda>_. n))} = m)"
proof -
  let ?k = "r' 0 mod (nat trunc + 1)"
  let ?pw' = "take (length pw - ?k) pw"
  from assms(1) have n: "nat (trunc + 1) = nat trunc + 1" by simp
  have run: "get_pass r spec words chars mapping to_number to_symbol trunc = Inr ?pw'"
    by (simp add: get_pass_def assms(2) truncated_take [OF assms(1)])
  have removed: "length pw - length ?pw' = min ?k (length pw)" by simp
  have bound: "?k \<le> nat trunc"
    using mod_less_divisor [of "nat trunc + 1" "r' 0"] by simp
  have zero: "trunc = 0 \<longrightarrow> ?k = 0 \<and> ?pw' = pw" by simp
  have drawn: "0 < trunc \<longrightarrow> py_randrange r' (trunc + 1) = Inr (int ?k, rest r')"
    by (simp add: py_randrange_def n)
  have first: "\<exists>k pw'. get_pass r spec words chars mapping to_number to_symbol trunc = Inr pw' \<and>
            pw' = take (length pw - k) pw \<and>
            length pw - length pw' = min k (length pw) \<and>
            k \<le> nat trunc \<and>
            (trunc = 0 \<longrightarrow> k = 0 \<and> pw' = pw) \<and>
            (0 < trunc \<longrightarrow> py_randrange r' (trunc + 1) = Inr (int k, rest r'))"
  proof (rule exI [of _ ?k], rule exI [of _ ?pw'], intro conjI)
    show "get_pass r spec words chars mapping to_number to_symbol trunc = Inr ?pw'"
      by (rule run)
    show "?pw' = take (length pw - ?k) pw" by (rule refl)
    show "length pw - length ?pw' = min ?k (length pw)" by (rule removed)
    show "?k \<le> nat trunc" by (rule bound)
    show "trunc = 0 \<longrightarrow> ?k = 0 \<and> ?pw' = pw" by (rule zero)
    show "0 < trunc \<longrightarrow> py_randrange r' (trunc + 1) = Inr (int ?k, rest r')"
      by (rule drawn)
  qed
  have second: "\<forall>k\<le>nat trunc. \<exists>\<rho>.
            py_randrange \<rho> (trunc + 1) = Inr (int k, rest \<rho>) \<and>
            truncated \<rho> trunc pw = Inr (take (length pw - k) pw)"
  proof (intro allI impI)
    fix k assume k: "k \<le> nat trunc"
    with assms(1) have "py_randrange (\<lambda>_. k) (trunc + 1) = Inr (int k, rest (\<lambda>_. k))"
      by (simp add: py_randrange_def n)
    moreover from k have "truncated (\<lambda>_. k) trunc pw = Inr (take (length pw - k) pw)"
      by (simp add: truncated_take [OF assms(1)])
    ultimately show "\<exists>\<rho>. py_randrange \<rho> (trunc + 1) = Inr (int k, rest \<rho>) \<and>
            truncated \<rho> trunc pw = Inr (take (length pw - k) pw)"
      by (intro exI [of _ "\<lambda>_. k"] conjI)
  qed
  have third: "\<forall>m. \<forall>k\<le>nat trunc.
            card {n. n < m * (nat trunc + 1) \<and>
                     py_randrange (\<lambda>_. n) (trunc + 1) = Inr (int k, rest (\<lambda>_. n))} = m"
    using randrange_count [OF assms(1)] by blast
  from first second third show ?thesis by (intro conjI)
qed

theorem truncation_bound_witness:
  "get_pass (\<lambda>_. 5) ''##'' Map.empty CHARS MOD10 [] [] 3 = Inr ''6''"
proof -
  have run: "forced (\<lambda>_. 5) ''##'' Map.empty CHARS MOD10 [] [] = Inr (''66'', \<lambda>_. 5)"
    by (simp add: forced_def force_char_def terminated_def py_index_def step_def boundary_def
        flush_def initial_def next_char_def draw_def CHARS_values check_hand_def
        py_choice_def rest_def MOD10_value)
  have pos: "(0::int) \<le> 3" by simp
  from truncation_bound [OF pos run] obtain k pw' where
    res: "get_pass (\<lambda>_. 5) ''##'' Map.empty CHARS MOD10 [] [] 3 = Inr pw'" and
    pw': "pw' = take (length ''66'' - k) ''66''" and
    k: "(0::int) < 3 \<longrightarrow> py_randrange (\<lambda>_. 5) (3 + 1) = Inr (int k, rest (\<lambda>_. 5))"
    by blast
  from k have "k = 1" by (simp add: py_randrange_def)
  with pw' res show ?thesis by simp
qed

section \<open>Specifications without words\<close>

lemma CHARS_complete: "complete CHARS"
  by (simp add: complete_def hand_names_def kind_suffixes_def CHARS_values)

lemma next_char_length:
  assumes "next_char r c chars h = Inr (lit, r')"
  shows "length lit = (if c \<in> set ''#$AaL.'' then 1 else 0)"
  using assms
  by (auto simp: next_char_def draw_def split: if_splits option.splits sum.splits)

lemma draw_returns:
  assumes "complete chars" "h \<in> hand_names" "k \<in> kind_suffixes"
  shows "\<exists>lit r'. draw r chars (h @ k) = Inr (lit, r')"
proof -
  from assms obtain s where "chars (h @ k) = Some s" "s \<noteq> []"
    unfolding complete_def by blast
  then show ?thesis by (simp add: draw_def py_choice_def)
qed

lemma next_char_returns:
  assumes "complete chars" "h \<in> hand_names"
  shows "\<exists>lit r'. next_char r c chars h = Inr (lit, r')"
  using draw_returns [OF assms, of _ r]
  by (simp add: next_char_def kind_suffixes_def)

lemma check_hand_ok:
  assumes "hands_ok ev h nh" "check_hand r c ev h nh = ((ev', h', nh'), r')"
  shows "hands_ok ev' h' nh'"
  using assms
  by (auto simp: check_hand_def hands_ok_def hand_names_def py_coin_def Let_def
      split: if_splits)

lemma step_plain:
  assumes "c \<notin> set ''WwNnSs''" "word_min s = 0"
  shows "step r words chars c s =
     (case next_char r c chars (hand s) of
        Inl e \<Rightarrow> Inl e
      | Inr (lit, r2) \<Rightarrow>
          (case check_hand r2 c (even_flag s) (hand s) (next_hand s) of
             ((ev, h, nh), r3) \<Rightarrow>
               Inr (s\<lparr>password := password s @ lit, even_flag := ev, hand := h,
                       next_hand := nh\<rparr>, r3)))"
  using assms
  by (auto simp: step_def boundary_def flush_def Let_def split: sum.splits prod.splits)


lemma loop_plain_length:
  assumes "set spec \<inter> set ''WwNnSs'' = {}" "word_min s = 0"
    "loop r words chars spec s = Inr (s', r')"
  shows "length (password s') =
           length (password s) + length (filter (\<lambda>c. c \<in> set ''#$AaL.'') spec) \<and>
         local_number s' = local_number s \<and> local_symbol s' = local_symbol s"
  using assms
proof (induction spec arbitrary: s r)
  case Nil
  then show ?case by simp
next
  case (Cons c cs)
  from Cons.prems(1) have c: "c \<notin> set ''WwNnSs''" and cs: "set cs \<inter> set ''WwNnSs'' = {}"
    by auto
  from Cons.prems(3) obtain s1 r1 where
    st: "step r words chars c s = Inr (s1, r1)" and
    lp: "loop r1 words chars cs s1 = Inr (s', r')"
    by (auto split: sum.splits)
  from st obtain lit r2 where
    lit: "next_char r c chars (hand s) = Inr (lit, r2)" and
    s1: "password s1 = password s @ lit" "word_min s1 = 0"
      "local_number s1 = local_number s" "local_symbol s1 = local_symbol s"
    unfolding step_plain [OF c Cons.prems(2)] using Cons.prems(2)
    by (auto split: sum.splits prod.splits)
  from Cons.IH [OF cs s1(2) lp] s1 next_char_length [OF lit]
  show ?case by simp
qed

lemma loop_plain_returns:
  assumes "complete chars" "set spec \<inter> set ''WwNnSs'' = {}" "word_min s = 0"
    "hands_ok (even_flag s) (hand s) (next_hand s)"
  shows "\<exists>s' r'. loop r words chars spec s = Inr (s', r')"
  using assms(2-)
proof (induction spec arbitrary: s r)
  case Nil
  then show ?case by simp
next
  case (Cons c cs)
  from Cons.prems(1) have c: "c \<notin> set ''WwNnSs''" and cs: "set cs \<inter> set ''WwNnSs'' = {}"
    by auto
  from Cons.prems(3) have "hand s \<in> hand_names" by (simp add: hands_ok_def)
  from next_char_returns [OF assms(1) this] obtain lit r2 where
    lit: "next_char r c chars (hand s) = Inr (lit, r2)" by blast
  obtain ev h nh r3 where
    ch: "check_hand r2 c (even_flag s) (hand s) (next_hand s) = ((ev, h, nh), r3)"
    by (metis prod.exhaust)
  let ?s1 = "s\<lparr>password := password s @ lit, even_flag := ev, hand := h, next_hand := nh\<rparr>"
  have st: "step r words chars c s = Inr (?s1, r3)"
    unfolding step_plain [OF c Cons.prems(2)] by (simp add: lit ch)
  have "hands_ok (even_flag ?s1) (hand ?s1) (next_hand ?s1)"
    using check_hand_ok [OF Cons.prems(3) ch] by simp
  moreover have "word_min ?s1 = 0" using Cons.prems(2) by simp
  ultimately obtain s' r' where "loop r3 words chars cs ?s1 = Inr (s', r')"
    using Cons.IH [OF cs] by blast
  with st show ?case by simp
qed

lemma terminated_plain:
  assumes "set spec \<inter> set ''WwNnSs'' = {}"
  shows "terminated spec = (if spec = [] then Inl IndexError else Inr spec)"
proof (cases spec rule: rev_cases)
  case Nil
  then show ?thesis by (simp add: terminated_def py_index_def)
next
  case (snoc ys y)
  with assms have "y \<notin> set ''WwNnSs''" by auto
  moreover have "py_index (ys @ [y]) (- 1) = Inr y"
    by (simp add: py_index_def nth_append)
  ultimately show ?thesis using snoc by (simp add: terminated_def)
qed

lemma initial_fields:
  "word_min initial = 0" "local_number initial = []" "local_symbol initial = []"
  "password initial = []" "hands_ok (even_flag initial) (hand initial) (next_hand initial)"
  by (simp_all add: initial_def hands_ok_def hand_names_def)

text \<open>
  Claim C6. Let a specification hold no word letter, and let \<open>get_pass\<close> be called
  with no forced indexes of the caller and no truncation. Whenever it returns a password,
  its length is the number of the characters \<open>#\<close>, \<open>$\<close>, \<open>A\<close>, \<open>a\<close>, \<open>L\<close> and
  \<open>.\<close> in the specification: the mode characters, the terminator and every other
  character add nothing. It does return a password when the specification is not empty,
  the character table is complete and the mapping has its two keys.
\<close>

theorem plain_spec_length:
  assumes "set spec \<inter> set ''WwNnSs'' = {}"
  shows "(\<forall>pw. get_pass r spec words chars mapping [] [] 0 = Inr pw \<longrightarrow>
            length pw = length (filter (\<lambda>c. c \<in> set ''#$AaL.'') spec)) \<and>
         (spec \<noteq> [] \<and> complete chars \<and> mapping ''to-number'' \<noteq> None \<and>
          mapping ''to-symbol'' \<noteq> None \<longrightarrow>
            (\<exists>pw. get_pass r spec words chars mapping [] [] 0 = Inr pw))"
proof -
  have run: "get_pass r spec words chars mapping [] [] 0 = Inr (password s)"
    if "spec \<noteq> []" "loop r words chars spec initial = Inr (s, r1)"
      "mapping ''to-number'' = Some nt" "mapping ''to-symbol'' = Some st"
      "chars ''any-number'' = Some an" "chars ''any-symbol'' = Some as" for s r1 nt st an as
    using that loop_plain_length [OF assms initial_fields(1) that(2)]
    by (simp add: get_pass_def forced_def force_char_def terminated_plain [OF assms]
        truncated_def initial_fields)
  have len: "length pw = length (filter (\<lambda>c. c \<in> set ''#$AaL.'') spec)"
    if pw: "get_pass r spec words chars mapping [] [] 0 = Inr pw" for pw
  proof -
    from pw have ne: "spec \<noteq> []"
      by (auto simp: get_pass_def forced_def force_char_def terminated_plain [OF assms])
    from pw ne obtain s r1 where lp: "loop r words chars spec initial = Inr (s, r1)"
      by (auto simp: get_pass_def forced_def force_char_def terminated_plain [OF assms]
          split: sum.splits)
    from pw ne lp obtain nt st an as where
      "mapping ''to-number'' = Some nt" "mapping ''to-symbol'' = Some st"
      "chars ''any-number'' = Some an" "chars ''any-symbol'' = Some as"
      by (auto simp: get_pass_def forced_def force_char_def terminated_plain [OF assms]
          split: sum.splits option.splits)
    from run [OF ne lp this] pw have "pw = password s" by simp
    with loop_plain_length [OF assms initial_fields(1) lp] show ?thesis
      by (simp add: initial_fields)
  qed
  have ret: "\<exists>pw. get_pass r spec words chars mapping [] [] 0 = Inr pw"
    if "spec \<noteq> []" "complete chars" "mapping ''to-number'' \<noteq> None"
      "mapping ''to-symbol'' \<noteq> None"
  proof -
    from loop_plain_returns [OF that(2) assms initial_fields(1) initial_fields(5)]
    obtain s r1 where lp: "loop r words chars spec initial = Inr (s, r1)" by blast
    from that(3,4) obtain nt st where
      m: "mapping ''to-number'' = Some nt" "mapping ''to-symbol'' = Some st" by auto
    from that(2) obtain an as where
      c: "chars (''any'' @ ''-number'') = Some an" "chars (''any'' @ ''-symbol'') = Some as"
      unfolding complete_def hand_names_def kind_suffixes_def by fastforce
    then have "chars ''any-number'' = Some an" "chars ''any-symbol'' = Some as" by simp_all
    from run [OF that(1) lp m this] show ?thesis by blast
  qed
  from len ret show ?thesis by blast
qed

theorem plain_spec_length_witness:
  "\<exists>pw. get_pass (\<lambda>_. 3) ''A#.$L=@;?'' Map.empty CHARS MOD10 [] [] 0 = Inr pw \<and> length pw = 5"
proof -
  have a: "set ''A#.$L=@;?'' \<inter> set ''WwNnSs'' = {}" by simp
  have b: "MOD10 ''to-number'' \<noteq> None" "MOD10 ''to-symbol'' \<noteq> None"
    by (simp_all add: MOD10_value)
  from plain_spec_length [OF a, of "\<lambda>_. 3" Map.empty CHARS MOD10] CHARS_complete b
  obtain pw where pw: "get_pass (\<lambda>_. 3) ''A#.$L=@;?'' Map.empty CHARS MOD10 [] [] 0 = Inr pw"
    and "length pw = length (filter (\<lambda>c. c \<in> set ''#$AaL.'') ''A#.$L=@;?'')"
    by auto
  then show ?thesis by simp
qed

section \<open>A word that cannot be chosen\<close>

lemma loop_append:
  "loop r words chars (xs @ ys) s =
     (case loop r words chars xs s of
        Inl e \<Rightarrow> Inl e
      | Inr (s', r') \<Rightarrow> loop r' words chars ys s')"
  by (induction xs arbitrary: r s) (auto split: sum.splits)

lemma get_word_none_eligible:
  assumes "words (if ev then ''even'' else h) = Some ws"
    and "filter (\<lambda>w. wmin \<le> length w \<and> length w \<le> wmax) ws = []"
  shows "get_word r words wmin wmax ev h = Inl IndexError"
  using assms by (simp add: get_word_def py_choice_def)

text \<open>
  Claim C2, amended. Let the loop of \<open>get_pass\<close> reach a character that is no word
  letter with a word pending (\<open>word_min\<close> is not zero), and let the catalog have the
  category of the moment (\<open>even\<close> in even-handed mode, the current hand otherwise) but no
  word in it whose length lies between \<open>word_min\<close> and \<open>word_max\<close>. Then the call
  fails, and the error is the \<open>IndexError\<close> that \<open>random.choice\<close> raises on the empty
  list of valid words: it carries neither the category nor the bounds.
\<close>

theorem empty_flush_fails:
  assumes "terminated spec = Inr (pre @ c # post)"
    and "loop r words chars pre initial = Inr (s, r1)"
    and "c \<notin> set ''WNS''" and "c \<notin> set ''wns''"
    and "word_min s \<noteq> 0"
    and "words (if even_flag s then ''even'' else hand s) = Some ws"
    and "filter (\<lambda>w. word_min s \<le> length w \<and> length w \<le> word_max s) ws = []"
  shows "get_pass r spec words chars mapping to_number to_symbol trunc = Inl IndexError"
proof -
  have "get_word r1 words (word_min s) (word_max s) (even_flag s) (hand s) = Inl IndexError"
    using assms(6,7) by (rule get_word_none_eligible)
  with assms(5) have "flush r1 words chars s = Inl IndexError"
    by (simp add: flush_def)
  then have "boundary r1 words chars c s = Inl IndexError"
    by (simp add: boundary_def)
  with assms(3,4) have "step r1 words chars c s = Inl IndexError"
    by (simp add: step_def)
  then have "loop r1 words chars (c # post) s = Inl IndexError"
    by simp
  with assms(2) have "loop r words chars (pre @ c # post) initial = Inl IndexError"
    by (simp add: loop_append)
  with assms(1) show ?thesis
    by (simp add: get_pass_def forced_def force_char_def)
qed

theorem empty_flush_fails_witness:
  "get_pass (\<lambda>_. 0) ''<WWw#''
     [''left'' \<mapsto> [''a'', ''abcd''], ''right'' \<mapsto> [], ''even'' \<mapsto> [], ''mixed'' \<mapsto> [],
      ''any'' \<mapsto> [''a'', ''abcd'']]
     CHARS MOD10 [] [] 0 = Inl IndexError"
proof -
  let ?words = "[''left'' \<mapsto> [''a'', ''abcd''], ''right'' \<mapsto> [], ''even'' \<mapsto> [],
      ''mixed'' \<mapsto> [], ''any'' \<mapsto> [''a'', ''abcd'']]"
  let ?s = "initial\<lparr>hand := ''left'', word_min := 2, word_max := 3\<rparr>"
  have t: "terminated ''<WWw#'' = Inr (''<WWw'' @ CHR ''#'' # [])"
    by (simp add: terminated_def py_index_def)
  have l: "loop (\<lambda>_. 0) ?words CHARS ''<WWw'' initial = Inr (?s, \<lambda>_. 0)"
    by (simp add: step_def boundary_def flush_def next_char_def check_hand_def initial_def)
  have w: "?words (if even_flag ?s then ''even'' else hand ?s) = Some [''a'', ''abcd'']"
    by (simp add: initial_def)
  have f: "filter (\<lambda>w. word_min ?s \<le> length w \<and> length w \<le> word_max ?s) [''a'', ''abcd''] = []"
    by simp
  have n: "word_min ?s \<noteq> 0" by simp
  show ?thesis by (rule empty_flush_fails [OF t l _ _ n w f]) simp_all
qed

text \<open>
  Claim C2 says that such a call fails with the error \<open>NoEligibleWord\<close>, which names
  the category and the bounds, and not with the error of the empty random choice. For the
  catalog of the one word \<open>ab\<close> and the specification \<open>W\<close>, a word of exactly one
  letter in the category \<open>any\<close>, the call fails with \<open>IndexError\<close>.
\<close>

theorem no_eligible_word_counterexample:
  "get_pass (\<lambda>_. 0) ''W''
     [''left'' \<mapsto> [''ab''], ''right'' \<mapsto> [], ''even'' \<mapsto> [], ''mixed'' \<mapsto> [],
      ''any'' \<mapsto> [''ab'']]
     CHARS MOD10 [] [] 0 = Inl IndexError \<and>
   get_pass (\<lambda>_. 0) ''W''
     [''left'' \<mapsto> [''ab''], ''right'' \<mapsto> [], ''even'' \<mapsto> [], ''mixed'' \<mapsto> [],
      ''any'' \<mapsto> [''ab'']]
     CHARS MOD10 [] [] 0 \<noteq> Inl (NoEligibleWord ''any'' 1 1)"
  by (simp add: get_pass_def forced_def force_char_def terminated_def py_index_def step_def boundary_def
      flush_def get_word_def py_choice_def initial_def)

section \<open>The order of literal and hand change\<close>

lemma next_char_member:
  assumes "next_char r c chars h = Inr (lit, r')" "literal_key c = Some k"
  shows "\<exists>x cs. lit = [x] \<and> chars (h @ k) = Some cs \<and> x \<in> set cs"
proof -
  from assms(2) have "next_char r c chars h = draw r chars (h @ k)"
    by (auto simp: literal_key_def next_char_def split: if_splits)
  with assms(1) have "draw r chars (h @ k) = Inr (lit, r')" by simp
  then show ?thesis
    by (auto simp: draw_def py_choice_def split: option.splits if_splits)
qed

lemma check_hand_literal:
  assumes "literal_key c \<noteq> None"
  shows "check_hand r c ev h nh = (if ev then (ev, nh, h) else (ev, h, nh), r)"
  using assms
  by (auto simp: literal_key_def check_hand_def split: if_splits)

lemma py_index_last:
  assumes "xs \<noteq> []"
  shows "py_index xs (- 1) = Inr (last xs)"
proof (cases xs rule: rev_cases)
  case Nil
  with assms show ?thesis by simp
next
  case (snoc ys y)
  then show ?thesis by (simp add: py_index_def nth_append)
qed

lemma flush_hand:
  assumes "flush r words chars s = Inr (s1, r1)" "word_min s \<noteq> 0" "even_flag s"
  shows "\<exists>hand_all. chars (hand s @ ''-all'') = Some hand_all \<and> password s1 \<noteq> [] \<and>
           hand s1 = (if last (password s1) \<in> set hand_all then next_hand s else hand s) \<and>
           next_hand s1 = (if last (password s1) \<in> set hand_all then hand s else next_hand s)"
proof -
  from assms obtain w r' where
    w: "get_word r words (word_min s) (word_max s) True (hand s) = Inr (w, r')"
    by (auto simp: flush_def split: sum.splits)
  let ?pw = "password s @ w"
  from assms w obtain c where c: "py_index ?pw (- 1) = Inr c"
    by (auto simp: flush_def Let_def split: sum.splits)
  then have ne: "?pw \<noteq> []" by (auto simp: py_index_def split: if_splits)
  then have "py_index ?pw (- 1) = Inr (last ?pw)"
    by (rule py_index_last)
  with c have cl: "c = last ?pw" by simp
  from assms w c obtain hand_all where h: "chars (hand s @ ''-all'') = Some hand_all"
    by (auto simp: flush_def Let_def split: sum.splits option.splits)
  from assms w c h have "password s1 = ?pw"
    "hand s1 = (if c \<in> set hand_all then next_hand s else hand s)"
    "next_hand s1 = (if c \<in> set hand_all then hand s else next_hand s)"
    by (auto simp: flush_def Let_def split: if_splits)
  with ne cl h show ?thesis by simp
qed

text \<open>
  Claim C3, amended. For a character of the specification that is no word letter, the loop
  first flushes a pending word, then draws the literal, and only then applies the
  character's own change of mode and the even-handed swap: the literal is drawn from the
  character table under the hand as the flush left it, and the change and the swap act on
  the characters that follow. So for a literal character in even-handed mode the hands
  after the round are those before the draw, swapped. After a flushed word in even-handed
  mode the hand of the draw is the other hand exactly when the last character of the
  password lies in the character set of the hand that was current before the flush.
\<close>

theorem literal_then_transition:
  assumes "c \<notin> set ''WNS''" and "c \<notin> set ''wns''"
    and "step r words chars c s = Inr (s', r')"
  shows "\<exists>s1 r1 lit r2.
           flush r words chars s = Inr (s1, r1) \<and>
           next_char r1 c chars (hand s1) = Inr (lit, r2) \<and>
           password s' = password s1 @ lit \<and>
           check_hand r2 c (even_flag s1) (hand s1) (next_hand s1) =
             ((even_flag s', hand s', next_hand s'), r') \<and>
           (\<forall>k. literal_key c = Some k \<longrightarrow>
              (\<exists>x cs. lit = [x] \<and> chars (hand s1 @ k) = Some cs \<and> x \<in> set cs)) \<and>
           (even_flag s1 \<and> literal_key c \<noteq> None \<longrightarrow>
              hand s' = next_hand s1 \<and> next_hand s' = hand s1) \<and>
           (word_min s \<noteq> 0 \<and> even_flag s \<longrightarrow>
              (\<exists>hand_all. chars (hand s @ ''-all'') = Some hand_all \<and> password s1 \<noteq> [] \<and>
                 hand s1 =
                   (if last (password s1) \<in> set hand_all then next_hand s else hand s)))"
proof -
  from assms have b: "boundary r words chars c s = Inr (s', r')"
    by (auto simp: step_def split: sum.splits if_splits)
  then obtain s1 r1 where f: "flush r words chars s = Inr (s1, r1)"
    by (auto simp: boundary_def split: sum.splits)
  with b obtain lit r2 where n: "next_char r1 c chars (hand s1) = Inr (lit, r2)"
    by (auto simp: boundary_def split: sum.splits)
  obtain ev h nh r3 where
    ch: "check_hand r2 c (even_flag s1) (hand s1) (next_hand s1) = ((ev, h, nh), r3)"
    by (metis prod.exhaust)
  from b f n ch have s': "s' = s1\<lparr>password := password s1 @ lit, even_flag := ev, hand := h,
      next_hand := nh\<rparr>" "r' = r3"
    by (simp_all add: boundary_def)
  then have pw: "password s' = password s1 @ lit"
    and tr: "check_hand r2 c (even_flag s1) (hand s1) (next_hand s1) =
             ((even_flag s', hand s', next_hand s'), r')"
    using ch by simp_all
  have mem: "\<forall>k. literal_key c = Some k \<longrightarrow>
              (\<exists>x cs. lit = [x] \<and> chars (hand s1 @ k) = Some cs \<and> x \<in> set cs)"
    using next_char_member [OF n] by blast
  have sw: "even_flag s1 \<and> literal_key c \<noteq> None \<longrightarrow>
              hand s' = next_hand s1 \<and> next_hand s' = hand s1"
    using tr by (auto simp: check_hand_literal)
  have fl: "word_min s \<noteq> 0 \<and> even_flag s \<longrightarrow>
              (\<exists>hand_all. chars (hand s @ ''-all'') = Some hand_all \<and> password s1 \<noteq> [] \<and>
                 hand s1 =
                   (if last (password s1) \<in> set hand_all then next_hand s else hand s))"
    using flush_hand [OF f] by blast
  from f n pw tr mem sw fl show ?thesis by blast
qed

text \<open>
  Claim C3 says that the swap of a character in even-handed mode is applied before its
  literal is drawn. For the specification \<open>=#\<close> and the random source of zeros the hand
  after \<open>=\<close> is \<open>left\<close> and the swap of \<open>#\<close> turns it to \<open>right\<close>, so the digit
  would be one of \<open>67890\<close>; the password is \<open>1\<close>, a digit of the left hand.
\<close>

theorem literal_hand_counterexample:
  "get_pass (\<lambda>_. 0) ''=#'' Map.empty CHARS MOD10 [] [] 0 = Inr ''1'' \<and>
   loop (\<lambda>_. 0) Map.empty CHARS ''='' initial =
     Inr (initial\<lparr>hand := ''left'', next_hand := ''right'', even_flag := True\<rparr>, \<lambda>_. 0) \<and>
   fst (check_hand (\<lambda>_. 0) CHR ''#'' True ''left'' ''right'') = (True, ''right'', ''left'') \<and>
   CHARS ''right-number'' = Some ''67890'' \<and> CHR ''1'' \<notin> set ''67890''"
  by (simp add: get_pass_def forced_def force_char_def terminated_def py_index_def step_def boundary_def
      flush_def initial_def next_char_def draw_def CHARS_values check_hand_def py_coin_def
      py_choice_def rest_def MOD10_value truncated_def)


theorem literal_then_transition_witness:
  "\<exists>s1 r1 lit r2.
     flush (\<lambda>_. 0) [''even'' \<mapsto> [''dodo'']] CHARS
       (initial\<lparr>hand := ''right'', next_hand := ''left'', even_flag := True,
                word_min := 4, word_max := 4\<rparr>) = Inr (s1, r1) \<and>
     next_char r1 CHR ''#'' CHARS (hand s1) = Inr (lit, r2) \<and>
     ''Dodo1'' = password s1 @ lit \<and> ''right'' = next_hand s1"
proof -
  let ?s = "initial\<lparr>hand := ''right'', next_hand := ''left'', even_flag := True,
                word_min := 4, word_max := 4\<rparr>"
  let ?s' = "initial\<lparr>hand := ''right'', next_hand := ''left'', even_flag := True,
                word_min := 0, word_max := 0, password := ''Dodo1''\<rparr>"
  have st: "step (\<lambda>_. 0) [''even'' \<mapsto> [''dodo'']] CHARS CHR ''#'' ?s = Inr (?s', \<lambda>_. 0)"
    by (simp add: step_def boundary_def flush_def get_word_def py_choice_def rest_def
        title_def lower_letters_def upper_letters_def upper_char_def py_index_def
        initial_def next_char_def draw_def CHARS_values check_hand_def)
  have k: "literal_key CHR ''#'' \<noteq> None" by (simp add: literal_key_def)
  have fl: "flush (\<lambda>_. 0) [''even'' \<mapsto> [''dodo'']] CHARS ?s =
      Inr (initial\<lparr>hand := ''left'', next_hand := ''right'', even_flag := True,
                     password := ''Dodo''\<rparr>, \<lambda>_. 0)"
    by (simp add: flush_def get_word_def py_choice_def rest_def title_def lower_letters_def
        upper_letters_def upper_char_def py_index_def initial_def CHARS_values)
  have c1: "CHR ''#'' \<notin> set ''WNS''" and c2: "CHR ''#'' \<notin> set ''wns''"
    by simp_all
  from literal_then_transition [OF c1 c2 st] show ?thesis
  proof (elim exE conjE)
    fix s1 r1 lit r2
    assume f: "flush (\<lambda>_. 0) [''even'' \<mapsto> [''dodo'']] CHARS ?s = Inr (s1, r1)"
      and n: "next_char r1 CHR ''#'' CHARS (hand s1) = Inr (lit, r2)"
      and p: "password ?s' = password s1 @ lit"
      and h: "even_flag s1 \<and> literal_key CHR ''#'' \<noteq> None \<longrightarrow>
                hand ?s' = next_hand s1 \<and> next_hand ?s' = hand s1"
    from f fl have "even_flag s1" by auto
    with h k have "''right'' = next_hand s1" by (simp add: initial_def)
    moreover from p have "''Dodo1'' = password s1 @ lit" by (simp add: initial_def)
    ultimately show ?thesis using f n by (intro exI conjI)
  qed
qed

section \<open>The specification \<open>NNNN\<close>\<close>

lemma title_from_length: "length (title_from p w) = length w"
  by (induction w arbitrary: p) simp_all

lemma six_no_letter: "CHR ''6'' \<notin> set lower_letters" "CHR ''6'' \<notin> set upper_letters"
  by (simp_all add: lower_letters_def upper_letters_def)

lemma upper_char_six: "upper_char c = CHR ''6'' \<longleftrightarrow> c = CHR ''6''"
proof (cases "map_of (zip lower_letters upper_letters) c")
  case None
  then show ?thesis by (simp add: upper_char_def)
next
  case (Some u)
  then have "(c, u) \<in> set (zip lower_letters upper_letters)" by (rule map_of_SomeD)
  then have "c \<in> set lower_letters" "u \<in> set upper_letters"
    by (auto dest: set_zip_leftD set_zip_rightD)
  with six_no_letter Some show ?thesis by (auto simp: upper_char_def)
qed

lemma lower_char_six: "lower_char c = CHR ''6'' \<longleftrightarrow> c = CHR ''6''"
proof (cases "map_of (zip upper_letters lower_letters) c")
  case None
  then show ?thesis by (simp add: lower_char_def)
next
  case (Some l)
  then have "(c, l) \<in> set (zip upper_letters lower_letters)" by (rule map_of_SomeD)
  then have "c \<in> set upper_letters" "l \<in> set lower_letters"
    by (auto dest: set_zip_leftD set_zip_rightD)
  with six_no_letter Some show ?thesis by (auto simp: lower_char_def)
qed

lemma title_from_six: "CHR ''6'' \<in> set (title_from p w) \<longleftrightarrow> CHR ''6'' \<in> set w"
proof (induction w arbitrary: p)
  case Nil
  then show ?case by simp
next
  case (Cons c w)
  have "upper_char c = CHR ''6'' \<longleftrightarrow> c = CHR ''6''" by (rule upper_char_six)
  moreover have "lower_char c = CHR ''6'' \<longleftrightarrow> c = CHR ''6''" by (rule lower_char_six)
  ultimately show ?case using Cons.IH by (auto simp: six_no_letter)
qed

lemma loop_NNNN:
  assumes "get_word r words 4 4 False ''any'' = Inr (t, r1)"
  shows "loop r words chars ''NNNN;'' initial =
         Inr (initial\<lparr>local_number := filter (\<lambda>i. i < int (length t)) [0, 1, 2, 3],
                        password := t\<rparr>, r1)"
  using assms
  by (simp add: step_def boundary_def flush_def initial_def next_char_def check_hand_def
      eval_nat_numeral)

lemma force_four:
  assumes "CHR ''6'' \<notin> set [a, b, c, d]" "an \<noteq> []"
  shows "\<exists>pw r'. force_loop r [a, b, c, d] [0, 1, 2, 3] (Str ''6'') an = Inr (pw, r') \<and>
           length pw = 4 \<and> set pw \<subseteq> set an"
  using assms
  by (auto simp: py_index_def py_slice_to_def py_slice_from_def replacement_def py_choice_def)

text \<open>
  With the mapping \<open>MOD10\<close> as the module builds it, the specification \<open>NNNN\<close> gives
  four characters of \<open>any-number\<close> whenever the words of the catalog are ASCII text
  (where \<open>str.title\<close> keeps the length of a word) and no word of four characters holds
  the character \<open>6\<close>: every character of the word is replaced by a random digit.
\<close>

lemma NNNN_digits:
  assumes "words ''any'' = Some ws"
    and "filter (\<lambda>w. 4 \<le> length w \<and> length w \<le> 4) ws \<noteq> []"
    and "\<forall>w\<in>set ws. length w = 4 \<longrightarrow> CHR ''6'' \<notin> set w"
    and "chars ''any-number'' = Some an" "an \<noteq> []" "chars ''any-symbol'' = Some as"
    and "\<forall>w\<in>set ws. \<forall>c\<in>set w. (of_char c :: nat) < 128"
  shows "\<exists>pw. get_pass r ''NNNN'' words chars MOD10 [] [] 0 = Inr pw \<and>
           length pw = 4 \<and> set pw \<subseteq> set an"
proof -
  let ?valid = "filter (\<lambda>w. 4 \<le> length w \<and> length w \<le> 4) ws"
  let ?w = "?valid ! (r 0 mod length ?valid)"
  from assms(2) have "r 0 mod length ?valid < length ?valid" by simp
  then have "?w \<in> set ?valid" by (rule nth_mem)
  then have w: "?w \<in> set ws" "length ?w = 4" by auto
  with assms(3) have six: "CHR ''6'' \<notin> set (title ?w)"
    by (simp add: title_def title_from_six)
  have len: "length (title ?w) = 4" using w by (simp add: title_def title_from_length)
  then obtain a b c d where t: "title ?w = [a, b, c, d]"
    by (auto simp: numeral_eq_Suc length_Suc_conv)
  have "get_word r words 4 4 False ''any'' = Inr (title ?w, rest r)"
    using assms(1,2) by (simp add: get_word_def py_choice_def Let_def)
  from loop_NNNN [OF this]
  have lp: "loop r words chars ''NNNN;'' initial =
         Inr (initial\<lparr>local_number := [0, 1, 2, 3], password := [a, b, c, d]\<rparr>, rest r)"
    by (simp add: t)
  from six t have "CHR ''6'' \<notin> set [a, b, c, d]" by simp
  from force_four [OF this assms(5)] obtain pw r' where
    f: "force_loop (rest r) [a, b, c, d] [0, 1, 2, 3] (Str ''6'') an = Inr (pw, r')"
    and pw: "length pw = 4" "set pw \<subseteq> set an"
    by blast
  have "terminated ''NNNN'' = Inr ''NNNN;''"
    by (simp add: terminated_def py_index_def)
  then have "get_pass r ''NNNN'' words chars MOD10 [] [] 0 = Inr pw"
    by (simp del: loop.simps force_loop.simps
        add: get_pass_def forced_def force_char_def lp MOD10_value assms(4,6) initial_fields f
        truncated_def force_loop.simps(1))
  with pw show ?thesis by blast
qed

text \<open>
  Claim C5. \<open>get_pass('NNNN', words, chars)\<close>, with the default mapping \<open>MOD10\<close>,
  should return four characters of \<open>any-number\<close> for every catalog that has a word of
  four letters in its category \<open>any\<close>, whichever characters the word has. For the
  catalog of the one word \<open>ab6d\<close> (a mixed-handed word) it returns nothing: the word is
  added as \<open>Ab6D\<close>, the indexes 0 to 3 are forced, and at index 2 the character \<open>6\<close>
  is found in the string \<open>6\<close> that \<open>MOD10\<close> holds in place of its table, so the
  subscript of that string by a string raises \<open>TypeError\<close>. This holds for every random
  source.
\<close>

theorem NNNN_type_error:
  "get_pass r ''NNNN''
     [''left'' \<mapsto> [], ''right'' \<mapsto> [], ''even'' \<mapsto> [], ''mixed'' \<mapsto> [''ab6d''],
      ''any'' \<mapsto> [''ab6d'']]
     CHARS MOD10 [] [] 0 = Inl TypeError"
  by (simp add: get_pass_def forced_def force_char_def terminated_def py_index_def step_def boundary_def
      flush_def get_word_def py_choice_def title_def lower_letters_def upper_letters_def
      upper_char_def lower_char_def initial_def next_char_def check_hand_def MOD10_value
      CHARS_values replacement_def py_slice_to_def py_slice_from_def)

end
